theory Spec2Isabelle
  imports Complex_Main "HOL-Library.Word"
begin

unbundle bit_operations_syntax

section \<open>Shared modelling conventions\<close>

text \<open>
  The repository is a gallery of React components. Three of them (\<open>Cube\<close>, \<open>Tetrahedron\<close>,
  \<open>Torus\<close>) render themselves recursively; two pieces of code evolve the Rule 30 automaton
  (\<open>Rule30Visualization\<close> into an array of rows, \<open>createRule30Texture\<close> into an RGBA byte
  buffer).

  Conventions of the embedding:
  \<^item> A JavaScript \<open>number\<close> holding a length or a coordinate is a \<open>real\<close>: rounding of IEEE
    doubles is not modelled, and \<open>Math.PI\<close>, \<open>Math.cos\<close>, \<open>Math.sin\<close> are \<open>pi\<close>, \<open>cos\<close>, \<open>sin\<close>.
  \<^item> A \<open>number\<close> holding a recursion depth, an index or a cell is an \<open>int\<close> (or a \<open>nat\<close> for a
    loop counter that starts at 0 and counts up); fractional depths and widths are outside
    the model.
  \<^item> \<open>undefined\<close> is \<open>None\<close>: reading an array outside its bounds gives \<open>None\<close>.
  \<^item> The recursive components are modelled in their final state, after every reveal timer has
    fired (\<open>show\<close> and \<open>showChildren\<close> are both true); the growth animation, the rotation
    and the \<open>delay\<close> prop are left out.
\<close>

type_synonym vec3 = "real \<times> real \<times> real"

text \<open>
  A rendered element: the values computed by one call of the component, and the list of child
  elements it pushes, each paired with what the parent attaches to the child's slot (the React
  \<open>key\<close>, and for the torus the wrapping \<open>group\<close>).
\<close>

datatype ('k, 'a) element = Element (props: 'a) (children: "('k \<times> ('k, 'a) element) list")

text \<open>\<open>xs[k]\<close> on a JavaScript array, for an integer \<open>k\<close>.\<close>

definition lookup :: "'a list \<Rightarrow> int \<Rightarrow> 'a option" where
  "lookup xs k = (if 0 \<le> k \<and> k < int (length xs) then Some (xs ! nat k) else None)"

text \<open>\<open>a || b\<close> on an optional string: \<open>undefined\<close> and the empty string are falsy.\<close>

fun js_or :: "string option \<Rightarrow> string option \<Rightarrow> string option" where
  "js_or None d = d"
| "js_or (Some s) d = (if s = [] then d else Some s)"

text \<open>\<open>a % b\<close> on integers: the remainder takes the sign of the dividend.\<close>

definition js_rem :: "int \<Rightarrow> int \<Rightarrow> int" where
  "js_rem a b = sgn a * (\<bar>a\<bar> mod \<bar>b\<bar>)"

subsection \<open>Traversals of an element tree\<close>

fun nodes :: "('k, 'a) element \<Rightarrow> ('k, 'a) element list" where
  "nodes (Element a cs) = Element a cs # concat (map (\<lambda>kc. nodes (snd kc)) cs)"

text \<open>The elements \<open>k\<close> levels below the root.\<close>

fun nodes_at :: "nat \<Rightarrow> ('k, 'a) element \<Rightarrow> ('k, 'a) element list" where
  "nodes_at 0 t = [t]"
| "nodes_at (Suc k) (Element a cs) = concat (map (\<lambda>kc. nodes_at k (snd kc)) cs)"

text \<open>The number of edges on the longest path from the root to a childless element.\<close>

fun max_depth :: "('k, 'a) element \<Rightarrow> nat" where
  "max_depth (Element a cs) = foldr max (map (\<lambda>kc. Suc (max_depth (snd kc))) cs) 0"

text \<open>Every (parent, child) pair of the tree.\<close>

fun edges :: "('k, 'a) element \<Rightarrow> ('a \<times> 'a) list" where
  "edges (Element a cs) =
     map (\<lambda>kc. (a, props (snd kc))) cs @ concat (map (\<lambda>kc. edges (snd kc)) cs)"

section \<open>Menger sponge: the \<open>Cube\<close> component\<close>

definition Menger_DEPTH_COLORS :: "string list" where
  "Menger_DEPTH_COLORS = [''#ff5555'', ''#55ff55'', ''#5555ff'', ''#ffff55'', ''#ff55ff'']"

record cube_props =
  cube_position :: vec3
  cube_size :: real
  cube_depth :: int
  cube_colorIndex :: int
  cube_color :: "string option"

text \<open>
  The child's slot is labelled with the loop variables \<open>(x, y, z)\<close> from which the source builds
  the key \<open>`${x}-${y}-${z}`\<close>. The three nested \<open>for\<close> loops with the \<open>if\<close> inside are the list
  comprehension, in the loops' order.
\<close>

function Cube :: "vec3 \<Rightarrow> real \<Rightarrow> int \<Rightarrow> (int \<times> int \<times> int, cube_props) element" where
  "Cube position sz depth =
     (let childCubes =
        (if depth > 0 then
           (let newSize = sz / 3; offset = sz / 3 in
            [((x, y, z),
              Cube (fst position + of_int x * offset,
                    fst (snd position) + of_int y * offset,
                    snd (snd position) + of_int z * offset) newSize (depth - 1)).
               x \<leftarrow> [-1, 0, 1], y \<leftarrow> [-1, 0, 1], z \<leftarrow> [-1, 0, 1],
               \<bar>x\<bar> + \<bar>y\<bar> + \<bar>z\<bar> > 1])
         else []);
        colorIndex = min (4 - depth) (int (length Menger_DEPTH_COLORS) - 1);
        color = lookup Menger_DEPTH_COLORS colorIndex
      in Element \<lparr>cube_position = position, cube_size = sz, cube_depth = depth,
                   cube_colorIndex = colorIndex, cube_color = color\<rparr> childCubes)"
  by pat_completeness auto
termination
  by (relation "measure (\<lambda>(position, sz, depth). nat depth)") auto

declare Cube.simps [simp del]

text \<open>\<open>MengerSponge\<close> renders \<open><Cube />\<close>: every prop takes its default.\<close>

definition MengerSponge :: "(int \<times> int \<times> int, cube_props) element" where
  "MengerSponge = Cube (0, 0, 0) 3 3"

section \<open>Sierpinski tetrahedron: the \<open>Tetrahedron\<close> component\<close>

definition Sierpinski_DEPTH_COLORS :: "string list" where
  "Sierpinski_DEPTH_COLORS =
     [''#ff3333'', ''#33ff33'', ''#3333ff'', ''#ffff33'', ''#ff33ff'', ''#33ffff'']"

record tetra_props =
  tetra_position :: vec3
  tetra_size :: real
  tetra_depth :: int
  tetra_color :: "string option"
  tetra_displayColor :: "string option"

text \<open>The local array \<open>vertices\<close>: one position for each of the four children.\<close>

definition vertices :: "vec3 \<Rightarrow> real \<Rightarrow> vec3 list" where
  "vertices position halfSize =
     [(fst position, fst (snd position) + halfSize, snd (snd position)),
      (fst position - halfSize, fst (snd position) - halfSize, snd (snd position) - halfSize),
      (fst position + halfSize, fst (snd position) - halfSize, snd (snd position) - halfSize),
      (fst position, fst (snd position) - halfSize, snd (snd position) + halfSize)]"

function Tetrahedron ::
  "vec3 \<Rightarrow> real \<Rightarrow> int \<Rightarrow> string option \<Rightarrow> (nat, tetra_props) element" where
  "Tetrahedron position sz depth color =
     (let childTetrahedra =
        (if depth > 0 then
           (let childSize = sz / 2; halfSize = sz / 2
            in map (\<lambda>i. (i, Tetrahedron (vertices position halfSize ! i) childSize (depth - 1)
                              (lookup Sierpinski_DEPTH_COLORS
                                 (js_rem (5 - depth + int i)
                                    (int (length Sierpinski_DEPTH_COLORS))))))
                 [0..<4])
         else []);
        displayColor =
          js_or color
            (lookup Sierpinski_DEPTH_COLORS
               (js_rem (5 - depth) (int (length Sierpinski_DEPTH_COLORS))))
      in Element \<lparr>tetra_position = position, tetra_size = sz, tetra_depth = depth,
                   tetra_color = color, tetra_displayColor = displayColor\<rparr> childTetrahedra)"
  by pat_completeness auto
termination
  by (relation "measure (\<lambda>(position, sz, depth, color). nat depth)") auto

declare Tetrahedron.simps [simp del]

text \<open>\<open>SierpinskiTetrahedron\<close> renders \<open><Tetrahedron />\<close>; the \<open>color\<close> prop is absent.\<close>

definition SierpinskiTetrahedron :: "(nat, tetra_props) element" where
  "SierpinskiTetrahedron = Tetrahedron (0, 0, 0) 5 4 None"

section \<open>Nested tori: the \<open>Torus\<close> component\<close>

definition Torus_DEPTH_COLORS :: "string list" where
  "Torus_DEPTH_COLORS = [''#ff0000'', ''#00ff00'', ''#0000ff'', ''#ffff00'', ''#ff00ff'']"

record torus_props =
  torus_position :: vec3
  torus_radius :: real
  torus_tubeRadius :: real
  torus_depth :: int
  torus_colorIndex :: int
  torus_color :: "string option"

text \<open>
  The \<open>group\<close> a parent wraps around each child torus: its key \<open>i\<close>, the loop's \<open>angle\<close> and
  its \<open>position\<close>. The group's \<open>rotation\<close> (a presentation matter built from \<open>Math.atan2\<close>) is
  left out.
\<close>

record torus_group =
  group_key :: nat
  group_angle :: real
  group_position :: vec3

function Torus :: "vec3 \<Rightarrow> real \<Rightarrow> real \<Rightarrow> int \<Rightarrow> (torus_group, torus_props) element" where
  "Torus position radius tubeRadius depth =
     (let childTori =
        (if depth > 0 then
           (let childRadius = tubeRadius / (pi / 2);
                childTubeRadius = childRadius / 2
            in map (\<lambda>i.
                 (let angle = (real i * pi) / 2;
                      x = cos angle * radius;
                      y = sin angle * radius
                  in (\<lparr>group_key = i, group_angle = angle,
                       group_position =
                         (fst position + x, fst (snd position) + y, snd (snd position))\<rparr>,
                      Torus (0, 0, 0) childRadius childTubeRadius (depth - 1))))
                 [0..<4])
         else []);
        colorIndex = 4 - depth;
        color = js_or (lookup Torus_DEPTH_COLORS colorIndex) (Some ''#ffffff'')
      in Element \<lparr>torus_position = position, torus_radius = radius,
                   torus_tubeRadius = tubeRadius, torus_depth = depth,
                   torus_colorIndex = colorIndex, torus_color = color\<rparr> childTori)"
  by pat_completeness auto
termination
  by (relation "measure (\<lambda>(position, radius, tubeRadius, depth). nat depth)") auto

declare Torus.simps [simp del]

text \<open>\<open>TorusFractal\<close> renders \<open><Torus />\<close>: every prop takes its default.\<close>

definition TorusFractal :: "(torus_group, torus_props) element" where
  "TorusFractal = Torus (0, 0, 0) 4 2 6"

section \<open>Rule 30: the shared next-state rule\<close>

text \<open>
  Both automaton loops compute the same two expressions on the cells \<open>left\<close>, \<open>center\<close> and
  \<open>right\<close>: \<open>(left << 2) | (center << 1) | right\<close>, and the test of the pattern against 1, 2,
  3 and 4.
\<close>

definition pattern :: "int \<Rightarrow> int \<Rightarrow> int \<Rightarrow> int" where
  "pattern left center right = push_bit 2 left OR push_bit 1 center OR right"

definition nextState :: "int \<Rightarrow> int" where
  "nextState p = (if p = 1 \<or> p = 2 \<or> p = 3 \<or> p = 4 then 1 else 0)"

text \<open>
  The exception of the automaton code that is modelled: \<open>Array(n)\<close> and \<open>new Uint8Array(n)\<close>
  throw a \<open>RangeError\<close> for a negative length. Arrays are otherwise unbounded here: the upper
  limits of an engine (\<open>Array(n)\<close> also throws for \<open>n \<ge> 2\<^sup>3\<^sup>2\<close>, a typed array for a length
  above the engine's maximum, and memory can run out) are not modelled, so \<open>Inr\<close> is the value
  the loops compute when every allocation succeeds.
\<close>

datatype error = RangeError

section \<open>Rule 30 as rows of cells: \<open>Rule30Visualization\<close>\<close>

text \<open>
  \<open>xs[i] = v\<close> on an ordinary array: a write at or past the end extends the array. The holes
  that a write past the end leaves are written as 0, which is how the code below would read them
  (an \<open>undefined\<close> operand of \<open><<\<close> or \<open>|\<close> converts to 0).
\<close>

definition array_set :: "int list \<Rightarrow> nat \<Rightarrow> int \<Rightarrow> int list" where
  "array_set xs i v =
     (if i < length xs then xs[i := v] else xs @ replicate (i - length xs) 0 @ [v])"

text \<open>\<open>xs[i]\<close> as an operand of \<open><<\<close> or \<open>|\<close>: outside the array it counts as 0.\<close>

definition cell :: "int list \<Rightarrow> nat \<Rightarrow> int" where
  "cell xs i = (if i < length xs then xs ! i else 0)"

definition initialState :: "nat \<Rightarrow> int list" where
  "initialState width = array_set (replicate width 0) (width div 2) 1"

text \<open>The inner loop over \<open>j\<close>, which fills \<open>nextGen\<close> from \<open>prevGen\<close>.\<close>

definition nextGeneration :: "nat \<Rightarrow> int list \<Rightarrow> int list" where
  "nextGeneration width prevGen =
     fold (\<lambda>j nextGen.
             (let left = (if j = 0 then 0 else cell prevGen (j - 1));
                  center = cell prevGen j;
                  right = (if j = width - 1 then 0 else cell prevGen (j + 1))
              in array_set nextGen j (nextState (pattern left center right))))
       [0..<width] (replicate width 0)"

text \<open>
  The part of the effect that fills \<open>allGenerations\<close> (up to \<open>setGenerations\<close>), with the
  constants \<open>width = 240\<close> and \<open>maxGenerations = 120\<close> taken as parameters. The rest of the
  effect, which hands \<open>width * maxGenerations\<close> to the constructor of the instanced mesh of the
  rendering library, is not part of it.
\<close>

definition allGenerations :: "int \<Rightarrow> int \<Rightarrow> error + int list list" where
  "allGenerations width maxGenerations =
     (if width < 0 then Inl RangeError
      else Inr (fold (\<lambda>i allGenerations.
                        allGenerations @ [nextGeneration (nat width) (allGenerations ! i)])
                  [0..<nat (maxGenerations - 1)] [initialState (nat width)]))"

definition Rule30Visualization :: "error + int list list" where
  "Rule30Visualization = allGenerations 240 120"

section \<open>Rule 30 as an RGBA byte buffer: \<open>createRule30Texture\<close>\<close>

type_synonym u8 = "8 word"

text \<open>\<open>data[i] = v\<close> on a \<open>Uint8Array\<close>: a write outside the buffer is ignored.\<close>

definition typed_set :: "u8 list \<Rightarrow> int \<Rightarrow> u8 \<Rightarrow> u8 list" where
  "typed_set data i v = (if 0 \<le> i \<and> i < int (length data) then data[nat i := v] else data)"

text \<open>\<open>data[i] > 0 ? 1 : 0\<close>; outside the buffer \<open>data[i]\<close> is \<open>undefined\<close> and the test fails.\<close>

definition red :: "u8 list \<Rightarrow> nat \<Rightarrow> int" where
  "red data i = (if i < length data \<and> 0 < data ! i then 1 else 0)"

text \<open>
  The loop that clears all cells. Its counter \<open>i\<close> runs through 0, 4, 8, ... below
  \<open>width * height * 4\<close>: once for each pixel \<open>k\<close> below \<open>width * height\<close>, with \<open>i = 4 * k\<close>.
\<close>

definition clearCells :: "nat \<Rightarrow> u8 list \<Rightarrow> u8 list" where
  "clearCells pixels data =
     fold (\<lambda>k data.
             (let i = 4 * int k;
                  data = typed_set data i 0;
                  data = typed_set data (i + 1) 0;
                  data = typed_set data (i + 2) 0
              in typed_set data (i + 3) 255))
       [0..<pixels] data"

text \<open>
  The body of the two nested loops, at row \<open>y\<close> and column \<open>x\<close>: first the value of the local
  \<open>nextState\<close>, read from row \<open>y\<close>, then the two writes into row \<open>y + 1\<close>.
\<close>

definition nextStateAt :: "nat \<Rightarrow> nat \<Rightarrow> nat \<Rightarrow> u8 list \<Rightarrow> int" where
  "nextStateAt width y x data =
     (let left = (if x = 0 then 0 else red data (((y * width) + (x - 1)) * 4));
          center = red data (((y * width) + x) * 4);
          right = (if x = width - 1 then 0 else red data (((y * width) + (x + 1)) * 4))
      in nextState (pattern left center right))"

definition applyRule :: "nat \<Rightarrow> nat \<Rightarrow> nat \<Rightarrow> u8 list \<Rightarrow> u8 list" where
  "applyRule width y x data =
     (let nextIndex = int (((y + 1) * width + x) * 4);
          data = typed_set data nextIndex (of_int (nextStateAt width y x data * 255))
      in typed_set data (nextIndex + 3) 255)"

definition createRule30Texture :: "int \<Rightarrow> int \<Rightarrow> error + u8 list" where
  "createRule30Texture width height =
     (if width * height * 4 < 0 then Inl RangeError
      else
        (let data = replicate (nat (width * height * 4)) 0;
             data = clearCells (nat (width * height)) data;
             centerX = width div 2;
             index = (0 * width + centerX) * 4;
             data = typed_set data index 255
         in Inr (fold (\<lambda>y data. fold (\<lambda>x data. applyRule (nat width) y x data)
                                  [0..<nat width] data)
                   [0..<nat (height - 1)] data)))"

text \<open>\<open>CellularAutomaton\<close> calls \<open>createRule30Texture(1024, 1024)\<close>.\<close>

definition CellularAutomaton_initialState :: "error + u8 list" where
  "CellularAutomaton_initialState = createRule30Texture 1024 1024"

section \<open>The automaton as the specification words it\<close>

text \<open>
  The grid invariant of the specification, written as a recursion on the row: row 0 has its one
  live cell at \<open>width div 2\<close>, and a later cell is the rule applied to the three cells above
  it, a neighbour outside \<open>[0, width)\<close> counting as dead.
\<close>

fun spec_cells :: "nat \<Rightarrow> nat \<Rightarrow> nat \<Rightarrow> int" where
  "spec_cells width 0 c = (if c = width div 2 then 1 else 0)"
| "spec_cells width (Suc r) c =
     nextState (pattern (if c = 0 then 0 else spec_cells width r (c - 1))
                        (spec_cells width r c)
                        (if c + 1 = width then 0 else spec_cells width r (c + 1)))"

text \<open>
  The colour rule as the specification words it:
  \<open>clamp(maxDepth - depthRemaining, 0, paletteSize - 1)\<close>.
\<close>

definition spec_colorIndex :: "int \<Rightarrow> int \<Rightarrow> int \<Rightarrow> int" where
  "spec_colorIndex maxDepth depthRemaining paletteSize =
     max 0 (min (maxDepth - depthRemaining) (paletteSize - 1))"

section \<open>Facts about element trees\<close>

lemma nodes_unfold: "nodes t = t # concat (map (\<lambda>kc. nodes (snd kc)) (children t))"
  by (cases t) simp

lemma max_depth_unfold: "max_depth t = foldr max (map (\<lambda>kc. Suc (max_depth (snd kc))) (children t)) 0"
  by (cases t) simp

lemma edges_unfold:
  "edges t = map (\<lambda>kc. (props t, props (snd kc))) (children t)
               @ concat (map (\<lambda>kc. edges (snd kc)) (children t))"
  by (cases t) simp

lemma foldr_max_const:
  "cs \<noteq> [] \<Longrightarrow> (\<And>c. c \<in> set cs \<Longrightarrow> f c = (h::nat)) \<Longrightarrow> foldr max (map f cs) 0 = h"
proof (induction cs)
  case Nil
  then show ?case by simp
next
  case (Cons c cs)
  show ?case
  proof (cases "cs = []")
    case True
    with Cons.prems show ?thesis by simp
  next
    case False
    with Cons have "foldr max (map f cs) 0 = h" by simp
    with Cons.prems show ?thesis by simp
  qed
qed

lemma max_depth_uniform:
  "children t \<noteq> [] \<Longrightarrow> (\<And>kc. kc \<in> set (children t) \<Longrightarrow> max_depth (snd kc) = h)
     \<Longrightarrow> max_depth t = Suc h"
  by (subst max_depth_unfold) (rule foldr_max_const, simp_all)

lemma edges_nodes:
  "(a, b) \<in> set (edges t) \<Longrightarrow>
     \<exists>n \<in> set (nodes t). a = props n \<and> (\<exists>kc \<in> set (children n). b = props (snd kc))"
proof (induction t)
  case (Element x cs)
  from Element.prems consider "\<exists>kc \<in> set cs. a = x \<and> b = props (snd kc)"
    | kc where "kc \<in> set cs" "(a, b) \<in> set (edges (snd kc))"
    by auto
  then show ?case
  proof cases
    case 1
    then show ?thesis by auto
  next
    case 2
    have "snd kc \<in> Basic_BNFs.snds kc" by (cases kc) simp
    with Element.IH 2 obtain n where "n \<in> set (nodes (snd kc))" "a = props n"
      "\<exists>kc' \<in> set (children n). b = props (snd kc')" by blast
    with 2(1) show ?thesis by auto
  qed
qed

section \<open>Facts about the cube\<close>

lemma Cube_props:
  "props (Cube position sz depth) =
     \<lparr>cube_position = position, cube_size = sz, cube_depth = depth,
      cube_colorIndex = min (4 - depth) 4,
      cube_color = lookup Menger_DEPTH_COLORS (min (4 - depth) 4)\<rparr>"
  by (subst Cube.simps) (simp add: Let_def Menger_DEPTH_COLORS_def)

lemma Cube_leaf: "\<not> 0 < depth \<Longrightarrow> children (Cube position sz depth) = []"
  by (subst Cube.simps) (simp add: Let_def)

lemma Cube_children:
  "0 < depth \<Longrightarrow>
   children (Cube position sz depth) =
     map (\<lambda>(x, y, z).
            ((x, y, z),
             Cube (fst position + of_int x * (sz / 3),
                   fst (snd position) + of_int y * (sz / 3),
                   snd (snd position) + of_int z * (sz / 3)) (sz / 3) (depth - 1)))
       [(x, y, z). x \<leftarrow> [-1, 0, 1], y \<leftarrow> [-1, 0, 1], z \<leftarrow> [-1, 0, 1],
                   \<bar>x\<bar> + \<bar>y\<bar> + \<bar>z\<bar> > 1]"
  by (subst Cube.simps) (simp add: Let_def)

lemma Cube_child:
  assumes "0 < depth" and "kc \<in> set (children (Cube position sz depth))"
  shows "\<exists>p. snd kc = Cube p (sz / 3) (depth - 1)"
proof -
  from assms(2) obtain c where
    "kc = (\<lambda>(x, y, z).
            ((x, y, z),
             Cube (fst position + of_int x * (sz / 3),
                   fst (snd position) + of_int y * (sz / 3),
                   snd (snd position) + of_int z * (sz / 3)) (sz / 3) (depth - 1))) c"
    unfolding Cube_children [OF assms(1)] set_map by blast
  then show ?thesis by (cases c) (simp, blast)
qed

lemma Cube_children_length: "0 < depth \<Longrightarrow> length (children (Cube position sz depth)) = 20"
  by (simp add: Cube_children)



lemma Cube_nodes_self:
  "n \<in> set (nodes (Cube position sz depth)) \<Longrightarrow>
     \<exists>p s d. n = Cube p s d \<and> (0 < sz \<longrightarrow> 0 < s) \<and> (0 \<le> depth \<longrightarrow> 0 \<le> d \<and> d \<le> depth)"
proof (induction "nat depth" arbitrary: position sz depth)
  case 0
  then have "children (Cube position sz depth) = []" by (simp add: Cube_leaf)
  with "0.prems" have "n = Cube position sz depth" by (subst (asm) nodes_unfold) simp
  then show ?case by blast
next
  case (Suc k)
  then have pos: "0 < depth" by simp
  from Suc.prems consider "n = Cube position sz depth"
    | kc where "kc \<in> set (children (Cube position sz depth))" "n \<in> set (nodes (snd kc))"
    by (subst (asm) nodes_unfold) auto
  then show ?case
  proof cases
    case 1
    then show ?thesis by blast
  next
    case 2
    from Cube_child [OF pos 2(1)] obtain p where "snd kc = Cube p (sz / 3) (depth - 1)" ..
    moreover from Suc.hyps(2) have "k = nat (depth - 1)" by simp
    ultimately have "\<exists>p s d. n = Cube p s d \<and> (0 < sz / 3 \<longrightarrow> 0 < s)
                       \<and> (0 \<le> depth - 1 \<longrightarrow> 0 \<le> d \<and> d \<le> depth - 1)"
      using Suc.hyps(1) 2(2) by metis
    then obtain p' s' d' where "n = Cube p' s' d'" "0 < sz / 3 \<longrightarrow> 0 < s'"
      "0 \<le> depth - 1 \<longrightarrow> 0 \<le> d' \<and> d' \<le> depth - 1" by blast
    with pos have "n = Cube p' s' d' \<and> (0 < sz \<longrightarrow> 0 < s') \<and> (0 \<le> depth \<longrightarrow> 0 \<le> d' \<and> d' \<le> depth)"
      by simp
    then show ?thesis by blast
  qed
qed

lemma Cube_max_depth: "max_depth (Cube position sz depth) = nat depth"
proof (induction "nat depth" arbitrary: position sz depth)
  case 0
  then have "children (Cube position sz depth) = []" by (simp add: Cube_leaf)
  with 0 show ?case by (subst max_depth_unfold) simp
next
  case (Suc k)
  then have pos: "0 < depth" by simp
  have "max_depth (Cube position sz depth) = Suc k"
  proof (rule max_depth_uniform)
    show "children (Cube position sz depth) \<noteq> []"
      using Cube_children_length [OF pos, of position sz] by auto
  next
    fix kc assume "kc \<in> set (children (Cube position sz depth))"
    from Cube_child [OF pos this] obtain p where "snd kc = Cube p (sz / 3) (depth - 1)" ..
    moreover from Suc.hyps(2) have "k = nat (depth - 1)" by simp
    ultimately show "max_depth (snd kc) = k" using Suc.hyps(1) by metis
  qed
  with Suc.hyps(2) show ?case by simp
qed

lemma Cube_nodes_at:
  "n \<in> set (nodes_at k (Cube position sz depth)) \<Longrightarrow> cube_depth (props n) = depth - int k"
proof (induction k arbitrary: position sz depth)
  case 0
  then show ?case by (simp add: Cube_props)
next
  case (Suc k)
  show ?case
  proof (cases "0 < depth")
    case False
    then have "children (Cube position sz depth) = []" by (simp add: Cube_leaf)
    with Suc.prems show ?thesis by (cases "Cube position sz depth") simp
  next
    case True
    from Suc.prems obtain kc where kc: "kc \<in> set (children (Cube position sz depth))"
      and n: "n \<in> set (nodes_at k (snd kc))"
      by (cases "Cube position sz depth") auto
    from Cube_child [OF True kc] obtain p where "snd kc = Cube p (sz / 3) (depth - 1)" ..
    with Suc.IH n have "cube_depth (props n) = depth - 1 - int k" by metis
    then show ?thesis by simp
  qed
qed

section \<open>Facts about the tetrahedron\<close>

lemma Tetrahedron_props:
  "props (Tetrahedron position sz depth color) =
     \<lparr>tetra_position = position, tetra_size = sz, tetra_depth = depth, tetra_color = color,
      tetra_displayColor =
        js_or color (lookup Sierpinski_DEPTH_COLORS (js_rem (5 - depth) 6))\<rparr>"
  by (subst Tetrahedron.simps) (simp add: Let_def Sierpinski_DEPTH_COLORS_def)

lemma Tetrahedron_leaf:
  "\<not> 0 < depth \<Longrightarrow> children (Tetrahedron position sz depth color) = []"
  by (subst Tetrahedron.simps) (simp add: Let_def)

lemma upt_4: "[0..<4] = [0, 1, 2, 3]"
  by (simp add: upt_rec)

lemma Tetrahedron_children:
  "0 < depth \<Longrightarrow>
   children (Tetrahedron position sz depth color) =
     map (\<lambda>i. (i, Tetrahedron (vertices position (sz / 2) ! i) (sz / 2) (depth - 1)
                    (lookup Sierpinski_DEPTH_COLORS (js_rem (5 - depth + int i) 6))))
       [0..<4]"
  by (subst Tetrahedron.simps) (simp add: Let_def Sierpinski_DEPTH_COLORS_def)

lemma Tetrahedron_child:
  assumes "0 < depth" and "kc \<in> set (children (Tetrahedron position sz depth color))"
  shows "\<exists>p c. snd kc = Tetrahedron p (sz / 2) (depth - 1) c"
proof -
  from assms(2) obtain i where
    "kc = (i, Tetrahedron (vertices position (sz / 2) ! i) (sz / 2) (depth - 1)
                (lookup Sierpinski_DEPTH_COLORS (js_rem (5 - depth + int i) 6)))"
    unfolding Tetrahedron_children [OF assms(1)] set_map by blast
  then have "snd kc = Tetrahedron (vertices position (sz / 2) ! i) (sz / 2) (depth - 1)
                (lookup Sierpinski_DEPTH_COLORS (js_rem (5 - depth + int i) 6))"
    by simp
  then show ?thesis by blast
qed

lemma Tetrahedron_children_length:
  "0 < depth \<Longrightarrow> length (children (Tetrahedron position sz depth color)) = 4"
  by (simp add: Tetrahedron_children)

lemma Tetrahedron_nodes_self:
  "n \<in> set (nodes (Tetrahedron position sz depth color)) \<Longrightarrow>
     \<exists>p s d c. n = Tetrahedron p s d c \<and> (0 < sz \<longrightarrow> 0 < s)
                \<and> (0 \<le> depth \<longrightarrow> 0 \<le> d \<and> d \<le> depth)"
proof (induction "nat depth" arbitrary: position sz depth color)
  case 0
  then have "children (Tetrahedron position sz depth color) = []"
    by (simp add: Tetrahedron_leaf)
  with "0.prems" have "n = Tetrahedron position sz depth color"
    by (subst (asm) nodes_unfold) simp
  then show ?case by blast
next
  case (Suc k)
  then have pos: "0 < depth" by simp
  from Suc.prems consider "n = Tetrahedron position sz depth color"
    | kc where "kc \<in> set (children (Tetrahedron position sz depth color))"
        "n \<in> set (nodes (snd kc))"
    by (subst (asm) nodes_unfold) auto
  then show ?case
  proof cases
    case 1
    then show ?thesis by blast
  next
    case 2
    from Tetrahedron_child [OF pos 2(1)] obtain p c
      where "snd kc = Tetrahedron p (sz / 2) (depth - 1) c" by blast
    moreover from Suc.hyps(2) have "k = nat (depth - 1)" by simp
    ultimately have "\<exists>p s d c. n = Tetrahedron p s d c \<and> (0 < sz / 2 \<longrightarrow> 0 < s)
                       \<and> (0 \<le> depth - 1 \<longrightarrow> 0 \<le> d \<and> d \<le> depth - 1)"
      using Suc.hyps(1) 2(2) by metis
    then obtain p' s' d' c' where "n = Tetrahedron p' s' d' c'" "0 < sz / 2 \<longrightarrow> 0 < s'"
      "0 \<le> depth - 1 \<longrightarrow> 0 \<le> d' \<and> d' \<le> depth - 1" by blast
    with pos have "n = Tetrahedron p' s' d' c' \<and> (0 < sz \<longrightarrow> 0 < s')
                     \<and> (0 \<le> depth \<longrightarrow> 0 \<le> d' \<and> d' \<le> depth)"
      by simp
    then show ?thesis by blast
  qed
qed

lemma Tetrahedron_max_depth: "max_depth (Tetrahedron position sz depth color) = nat depth"
proof (induction "nat depth" arbitrary: position sz depth color)
  case 0
  then have "children (Tetrahedron position sz depth color) = []"
    by (simp add: Tetrahedron_leaf)
  with 0 show ?case by (subst max_depth_unfold) simp
next
  case (Suc k)
  then have pos: "0 < depth" by simp
  have "max_depth (Tetrahedron position sz depth color) = Suc k"
  proof (rule max_depth_uniform)
    show "children (Tetrahedron position sz depth color) \<noteq> []"
      using Tetrahedron_children_length [OF pos, of position sz color] by auto
  next
    fix kc assume "kc \<in> set (children (Tetrahedron position sz depth color))"
    from Tetrahedron_child [OF pos this] obtain p c
      where "snd kc = Tetrahedron p (sz / 2) (depth - 1) c" by blast
    moreover from Suc.hyps(2) have "k = nat (depth - 1)" by simp
    ultimately show "max_depth (snd kc) = k" using Suc.hyps(1) by metis
  qed
  with Suc.hyps(2) show ?case by simp
qed

section \<open>Facts about the torus\<close>

lemma Torus_props:
  "props (Torus position radius tubeRadius depth) =
     \<lparr>torus_position = position, torus_radius = radius, torus_tubeRadius = tubeRadius,
      torus_depth = depth, torus_colorIndex = 4 - depth,
      torus_color = js_or (lookup Torus_DEPTH_COLORS (4 - depth)) (Some ''#ffffff'')\<rparr>"
  by (subst Torus.simps) (simp add: Let_def)

lemma Torus_leaf: "\<not> 0 < depth \<Longrightarrow> children (Torus position radius tubeRadius depth) = []"
  by (subst Torus.simps) (simp add: Let_def)

lemma Torus_children:
  "0 < depth \<Longrightarrow>
   children (Torus position radius tubeRadius depth) =
     map (\<lambda>i. (\<lparr>group_key = i, group_angle = real i * pi / 2,
                 group_position =
                   (fst position + cos (real i * pi / 2) * radius,
                    fst (snd position) + sin (real i * pi / 2) * radius,
                    snd (snd position))\<rparr>,
                Torus (0, 0, 0) (tubeRadius / (pi / 2)) (tubeRadius / (pi / 2) / 2)
                  (depth - 1)))
       [0..<4]"
  by (subst Torus.simps) (simp add: Let_def)

lemma Torus_child:
  assumes "0 < depth" and "kc \<in> set (children (Torus position radius tubeRadius depth))"
  shows "snd kc = Torus (0, 0, 0) (tubeRadius / (pi / 2)) (tubeRadius / (pi / 2) / 2)
                    (depth - 1)"
  using assms(2) unfolding Torus_children [OF assms(1)] set_map by auto

lemma Torus_children_length:
  "0 < depth \<Longrightarrow> length (children (Torus position radius tubeRadius depth)) = 4"
  by (simp add: Torus_children)

text \<open>
  A ring torus (tube narrower than the major radius) spawns children that are ring tori again,
  and smaller than itself.
\<close>

lemma torus_ring_child:
  assumes "0 < tubeRadius" and "tubeRadius < radius"
  shows "0 < tubeRadius / (pi / 2) / 2"
    and "tubeRadius / (pi / 2) / 2 < tubeRadius / (pi / 2)"
    and "tubeRadius / (pi / 2) < radius"
proof -
  have half: "1 \<le> pi / 2" using pi_ge_two by simp
  have r: "0 < tubeRadius / (pi / 2)" using assms(1) by simp
  show "0 < tubeRadius / (pi / 2) / 2" using assms(1) by simp
  have "x / 2 < x" if "0 < x" for x :: real using that by simp
  from this [OF r] show "tubeRadius / (pi / 2) / 2 < tubeRadius / (pi / 2)" .
  have "tubeRadius / (pi / 2) \<le> tubeRadius / 1"
    using assms(1) half by (intro divide_left_mono) simp_all
  with assms(2) show "tubeRadius / (pi / 2) < radius" by simp
qed

lemma Torus_nodes_self:
  "n \<in> set (nodes (Torus position radius tubeRadius depth)) \<Longrightarrow>
     \<exists>p r t d. n = Torus p r t d
        \<and> (0 < tubeRadius \<and> tubeRadius < radius \<longrightarrow> 0 < t \<and> t < r)
        \<and> (0 \<le> depth \<longrightarrow> 0 \<le> d \<and> d \<le> depth)"
proof (induction "nat depth" arbitrary: position radius tubeRadius depth)
  case 0
  then have "children (Torus position radius tubeRadius depth) = []"
    by (simp add: Torus_leaf)
  with "0.prems" have "n = Torus position radius tubeRadius depth"
    by (subst (asm) nodes_unfold) simp
  then show ?case by blast
next
  case (Suc k)
  then have pos: "0 < depth" by simp
  let ?r = "tubeRadius / (pi / 2)"
  from Suc.prems consider "n = Torus position radius tubeRadius depth"
    | kc where "kc \<in> set (children (Torus position radius tubeRadius depth))"
        "n \<in> set (nodes (snd kc))"
    by (subst (asm) nodes_unfold) auto
  then show ?case
  proof cases
    case 1
    then show ?thesis by blast
  next
    case 2
    from Torus_child [OF pos 2(1)]
    have "snd kc = Torus (0, 0, 0) ?r (?r / 2) (depth - 1)" .
    moreover from Suc.hyps(2) have "k = nat (depth - 1)" by simp
    ultimately have "\<exists>p r t d. n = Torus p r t d
        \<and> (0 < ?r / 2 \<and> ?r / 2 < ?r \<longrightarrow> 0 < t \<and> t < r)
        \<and> (0 \<le> depth - 1 \<longrightarrow> 0 \<le> d \<and> d \<le> depth - 1)"
      using Suc.hyps(1) 2(2) by metis
    then obtain p' r' t' d' where n: "n = Torus p' r' t' d'"
      and inv: "0 < ?r / 2 \<and> ?r / 2 < ?r \<longrightarrow> 0 < t' \<and> t' < r'"
      and dep: "0 \<le> depth - 1 \<longrightarrow> 0 \<le> d' \<and> d' \<le> depth - 1" by blast
    have "0 < tubeRadius \<and> tubeRadius < radius \<longrightarrow> 0 < t' \<and> t' < r'"
      using inv torus_ring_child(1,2) [of tubeRadius radius] by blast
    moreover from dep pos have "0 \<le> depth \<longrightarrow> 0 \<le> d' \<and> d' \<le> depth" by simp
    ultimately show ?thesis using n by blast
  qed
qed

lemma Torus_max_depth: "max_depth (Torus position radius tubeRadius depth) = nat depth"
proof (induction "nat depth" arbitrary: position radius tubeRadius depth)
  case 0
  then have "children (Torus position radius tubeRadius depth) = []"
    by (simp add: Torus_leaf)
  with 0 show ?case by (subst max_depth_unfold) simp
next
  case (Suc k)
  then have pos: "0 < depth" by simp
  have "max_depth (Torus position radius tubeRadius depth) = Suc k"
  proof (rule max_depth_uniform)
    show "children (Torus position radius tubeRadius depth) \<noteq> []"
      using Torus_children_length [OF pos, of position radius tubeRadius] by auto
  next
    fix kc assume "kc \<in> set (children (Torus position radius tubeRadius depth))"
    from Torus_child [OF pos this] Suc.hyps(2) Suc.hyps(1) [of "depth - 1"]
    show "max_depth (snd kc) = k" by simp
  qed
  with Suc.hyps(2) show ?case by simp
qed

lemma Torus_nodes_at:
  "n \<in> set (nodes_at k (Torus position radius tubeRadius depth)) \<Longrightarrow>
     torus_depth (props n) = depth - int k"
proof (induction k arbitrary: position radius tubeRadius depth)
  case 0
  then show ?case by (simp add: Torus_props)
next
  case (Suc k)
  show ?case
  proof (cases "0 < depth")
    case False
    then have "children (Torus position radius tubeRadius depth) = []"
      by (simp add: Torus_leaf)
    with Suc.prems show ?thesis by (cases "Torus position radius tubeRadius depth") simp
  next
    case True
    from Suc.prems obtain kc
      where kc: "kc \<in> set (children (Torus position radius tubeRadius depth))"
        and n: "n \<in> set (nodes_at k (snd kc))"
      by (cases "Torus position radius tubeRadius depth") auto
    from Torus_child [OF True kc] Suc.IH n
    have "torus_depth (props n) = depth - 1 - int k" by metis
    then show ?thesis by simp
  qed
qed

section \<open>The cells kept by the cube subdivision\<close>

lemma set_comprehension3:
  "set [(x, y, z). x \<leftarrow> xs, y \<leftarrow> ys, z \<leftarrow> zs, P x y z]
   = {(x, y, z). x \<in> set xs \<and> y \<in> set ys \<and> z \<in> set zs \<and> P x y z}"
  by auto

lemma cube_cells_set:
  "set [(x, y, z). x \<leftarrow> [-1, 0, 1 :: int], y \<leftarrow> [-1, 0, 1 :: int], z \<leftarrow> [-1, 0, 1 :: int],
                   \<bar>x\<bar> + \<bar>y\<bar> + \<bar>z\<bar> > 1]
   = {(x, y, z). x \<in> {-1, 0, 1} \<and> y \<in> {-1, 0, 1} \<and> z \<in> {-1, 0, 1}
                 \<and> 1 < \<bar>x\<bar> + \<bar>y\<bar> + \<bar>z\<bar>}"
  by (subst set_comprehension3) simp

lemma cube_cells_distinct:
  "distinct [(x, y, z). x \<leftarrow> [-1, 0, 1 :: int], y \<leftarrow> [-1, 0, 1 :: int],
                        z \<leftarrow> [-1, 0, 1 :: int], \<bar>x\<bar> + \<bar>y\<bar> + \<bar>z\<bar> > 1]"
  by simp

lemma Cube_children_keys:
  "0 < depth \<Longrightarrow>
   map fst (children (Cube position sz depth)) =
     [(x, y, z). x \<leftarrow> [-1, 0, 1], y \<leftarrow> [-1, 0, 1], z \<leftarrow> [-1, 0, 1], \<bar>x\<bar> + \<bar>y\<bar> + \<bar>z\<bar> > 1]"
  by (simp add: Cube_children)

lemma Cube_child_props:
  assumes "0 < depth" and "((x, y, z), c) \<in> set (children (Cube position sz depth))"
  shows "c = Cube (fst position + of_int x * (sz / 3),
                   fst (snd position) + of_int y * (sz / 3),
                   snd (snd position) + of_int z * (sz / 3)) (sz / 3) (depth - 1)"
proof -
  from assms(2) obtain k where
    "((x, y, z), c) = (\<lambda>(x, y, z).
            ((x, y, z),
             Cube (fst position + of_int x * (sz / 3),
                   fst (snd position) + of_int y * (sz / 3),
                   snd (snd position) + of_int z * (sz / 3)) (sz / 3) (depth - 1))) k"
    unfolding Cube_children [OF assms(1)] set_map by blast
  then show ?thesis by (cases k) simp
qed

text \<open>A strict lower bound on \<open>pi\<close>, from \<open>cos 1 > 0\<close>.\<close>

lemma cos_one_pos: "0 < cos (1::real)"
proof -
  have "\<bar>sin (1/2 :: real)\<bar> \<le> 1/2" using abs_sin_x_le_abs_x [of "1/2"] by simp
  then have "(sin (1/2 :: real))\<^sup>2 \<le> (1/2)\<^sup>2"
    by (metis abs_le_square_iff abs_of_nonneg zero_le_divide_1_iff zero_le_numeral)
  then have "1 - 2 * (sin (1/2 :: real))\<^sup>2 \<ge> 1/2" by (simp add: power2_eq_square)
  moreover have "cos (1::real) = 1 - 2 * (sin (1/2))\<^sup>2" using cos_double_sin [of "1/2 :: real"] by simp
  ultimately show ?thesis by simp
qed

lemma pi_gt_two: "2 < pi"
proof -
  have "pi \<noteq> 2"
  proof
    assume "pi = 2"
    then have "cos (1::real) = cos (pi / 2)" by simp
    with cos_one_pos show False by simp
  qed
  with pi_ge_two show ?thesis by simp
qed

lemma nodes_root: "t \<in> set (nodes t)"
  by (subst nodes_unfold) simp

lemma nodes_at_nodes: "n \<in> set (nodes_at k t) \<Longrightarrow> n \<in> set (nodes t)"
proof (induction k arbitrary: t)
  case 0
  then show ?case by (simp add: nodes_root)
next
  case (Suc k)
  from Suc.prems obtain kc where kc: "kc \<in> set (children t)" and n: "n \<in> set (nodes_at k (snd kc))"
    by (cases t) auto
  from Suc.IH [OF n] kc show ?case by (subst nodes_unfold) auto
qed

lemma nodes_at_1: "nodes_at (Suc 0) t = map snd (children t)"
proof (cases t)
  case (Element a cs)
  have "concat (map (\<lambda>kc. [snd kc]) cs) = map snd cs" by (induction cs) simp_all
  with Element show ?thesis by simp
qed

lemma nodes_levels: "n \<in> set (nodes t) \<Longrightarrow> \<exists>k. n \<in> set (nodes_at k t)"
proof (induction t)
  case (Element x cs)
  from Element.prems consider "n = Element x cs"
    | kc where "kc \<in> set cs" "n \<in> set (nodes (snd kc))"
    by auto
  then show ?case
  proof cases
    case 1
    then have "n \<in> set (nodes_at 0 (Element x cs))" by simp
    then show ?thesis by blast
  next
    case 2
    have "snd kc \<in> Basic_BNFs.snds kc" by (cases kc) simp
    with Element.IH 2 obtain k where "n \<in> set (nodes_at k (snd kc))" by blast
    with 2(1) have "n \<in> set (nodes_at (Suc k) (Element x cs))" by auto
    then show ?thesis by blast
  qed
qed

section \<open>Claims about the recursive solids\<close>

text \<open>
  Claim C2. Every cube of a generated sponge whose \<open>depth\<close> is positive has exactly 20
  children, one for each cell \<open>(x, y, z)\<close> of \<open>{-1, 0, 1}\<^sup>3\<close> with \<open>|x| + |y| + |z| > 1\<close>; the
  child at cell \<open>(x, y, z)\<close> has a third of the parent's size, sits at the parent's position
  plus \<open>(x, y, z)\<close> times a third of the parent's size, and has one level less to go.
\<close>

theorem C2_cube_subdivision:
  assumes "n \<in> set (nodes (Cube position sz depth))" and "0 < cube_depth (props n)"
  shows "length (children n) = 20
    \<and> distinct (map fst (children n))
    \<and> set (map fst (children n))
        = {(x, y, z). x \<in> {-1, 0, 1} \<and> y \<in> {-1, 0, 1} \<and> z \<in> {-1, 0, 1}
                      \<and> 1 < \<bar>x\<bar> + \<bar>y\<bar> + \<bar>z\<bar>}
    \<and> (\<forall>((x, y, z), c) \<in> set (children n).
          cube_size (props c) = cube_size (props n) / 3
          \<and> cube_position (props c)
              = (fst (cube_position (props n)) + of_int x * (cube_size (props n) / 3),
                 fst (snd (cube_position (props n))) + of_int y * (cube_size (props n) / 3),
                 snd (snd (cube_position (props n))) + of_int z * (cube_size (props n) / 3))
          \<and> cube_depth (props c) = cube_depth (props n) - 1)"
proof -
  from Cube_nodes_self [OF assms(1)] obtain p s d where n: "n = Cube p s d" by blast
  with assms(2) have d: "0 < d" by (simp add: Cube_props)
  have "length (children n) = 20" using n d by (simp add: Cube_children_length)
  moreover have "distinct (map fst (children n))"
    unfolding n Cube_children_keys [OF d] by (rule cube_cells_distinct)
  moreover have "set (map fst (children n))
        = {(x, y, z). x \<in> {-1, 0, 1} \<and> y \<in> {-1, 0, 1} \<and> z \<in> {-1, 0, 1}
                      \<and> 1 < \<bar>x\<bar> + \<bar>y\<bar> + \<bar>z\<bar>}"
    unfolding n Cube_children_keys [OF d] by (rule cube_cells_set)
  moreover have "\<forall>((x, y, z), c) \<in> set (children n).
          cube_size (props c) = cube_size (props n) / 3
          \<and> cube_position (props c)
              = (fst (cube_position (props n)) + of_int x * (cube_size (props n) / 3),
                 fst (snd (cube_position (props n))) + of_int y * (cube_size (props n) / 3),
                 snd (snd (cube_position (props n))) + of_int z * (cube_size (props n) / 3))
          \<and> cube_depth (props c) = cube_depth (props n) - 1"
  proof (intro ballI, clarify)
    fix x y z c assume "((x, y, z), c) \<in> set (children n)"
    with n have "((x, y, z), c) \<in> set (children (Cube p s d))" by simp
    from Cube_child_props [OF d this] show
      "cube_size (props c) = cube_size (props n) / 3
          \<and> cube_position (props c)
              = (fst (cube_position (props n)) + of_int x * (cube_size (props n) / 3),
                 fst (snd (cube_position (props n))) + of_int y * (cube_size (props n) / 3),
                 snd (snd (cube_position (props n))) + of_int z * (cube_size (props n) / 3))
          \<and> cube_depth (props c) = cube_depth (props n) - 1"
      by (simp add: n Cube_props)
  qed
  ultimately show ?thesis by blast
qed

theorem C2_cube_subdivision_witness:
  "Cube (0, 0, 0) 3 1 \<in> set (nodes (Cube (0, 0, 0) 3 1))
   \<and> 0 < cube_depth (props (Cube (0, 0, 0) 3 1))
   \<and> length (children (Cube (0, 0, 0) 3 1)) = 20
   \<and> map (\<lambda>kc. (fst kc, cube_size (props (snd kc)), cube_position (props (snd kc))))
        (take 2 (children (Cube (0, 0, 0) 3 1)))
     = [((-1, -1, -1), 1, (-1, -1, -1)), ((-1, -1, 0), 1, (-1, -1, 0))]"
proof -
  have "Cube (0, 0, 0) 3 1 \<in> set (nodes (Cube (0, 0, 0) 3 1))" by (rule nodes_root)
  moreover have "0 < cube_depth (props (Cube (0, 0, 0) 3 1))" by (simp add: Cube_props)
  ultimately have "length (children (Cube (0, 0, 0) 3 1)) = 20"
    using C2_cube_subdivision [of "Cube (0, 0, 0) 3 1" "(0, 0, 0)" 3 1] by blast
  then show ?thesis by (simp add: Cube_children Cube_props nodes_root)
qed

subsection \<open>Depth and sizes along the tree\<close>

lemma child_in_nodes: "kc \<in> set (children t) \<Longrightarrow> snd kc \<in> set (nodes t)"
  by (subst nodes_unfold) (auto intro: nodes_root)

lemma Cube_node_depth:
  assumes "n \<in> set (nodes (Cube position sz depth))" and "0 \<le> depth"
  shows "0 \<le> cube_depth (props n) \<and> cube_depth (props n) \<le> depth
         \<and> (children n = [] \<longleftrightarrow> cube_depth (props n) = 0)"
proof -
  from Cube_nodes_self [OF assms(1)] assms(2) obtain p s d
    where n: "n = Cube p s d" and d: "0 \<le> d" "d \<le> depth" by blast
  have "children (Cube p s d) = [] \<longleftrightarrow> d = 0"
  proof (cases "0 < d")
    case True
    with Cube_children_length [OF True, of p s] show ?thesis by auto
  next
    case False
    with d Cube_leaf [of d p s] show ?thesis by simp
  qed
  with n d show ?thesis by (simp add: Cube_props)
qed

lemma Cube_edge_shrinks:
  assumes "(a, b) \<in> set (edges (Cube position sz depth))" and "0 < sz"
  shows "cube_size b < cube_size a"
proof -
  from edges_nodes [OF assms(1)] obtain n kc
    where n: "n \<in> set (nodes (Cube position sz depth))" and a: "a = props n"
      and kc: "kc \<in> set (children n)" and b: "b = props (snd kc)" by blast
  from Cube_nodes_self [OF n] assms(2) obtain p s d
    where c: "n = Cube p s d" and s: "0 < s" by blast
  have d: "0 < d"
  proof (rule ccontr)
    assume "\<not> 0 < d"
    then have "children (Cube p s d) = []" by (rule Cube_leaf)
    with kc c show False by simp
  qed
  from Cube_child [OF d] kc c obtain p' where "snd kc = Cube p' (s / 3) (d - 1)" by blast
  with a b c s show ?thesis by (simp add: Cube_props)
qed

lemma Tetrahedron_node_depth:
  assumes "n \<in> set (nodes (Tetrahedron position sz depth color))" and "0 \<le> depth"
  shows "0 \<le> tetra_depth (props n) \<and> tetra_depth (props n) \<le> depth
         \<and> (children n = [] \<longleftrightarrow> tetra_depth (props n) = 0)"
proof -
  from Tetrahedron_nodes_self [OF assms(1)] assms(2) obtain p s d c
    where n: "n = Tetrahedron p s d c" and d: "0 \<le> d" "d \<le> depth" by blast
  have "children (Tetrahedron p s d c) = [] \<longleftrightarrow> d = 0"
  proof (cases "0 < d")
    case True
    with Tetrahedron_children_length [OF True, of p s c] show ?thesis by auto
  next
    case False
    with d Tetrahedron_leaf [of d p s c] show ?thesis by simp
  qed
  with n d show ?thesis by (simp add: Tetrahedron_props)
qed

lemma Tetrahedron_edge_shrinks:
  assumes "(a, b) \<in> set (edges (Tetrahedron position sz depth color))" and "0 < sz"
  shows "tetra_size b < tetra_size a"
proof -
  from edges_nodes [OF assms(1)] obtain n kc
    where n: "n \<in> set (nodes (Tetrahedron position sz depth color))" and a: "a = props n"
      and kc: "kc \<in> set (children n)" and b: "b = props (snd kc)" by blast
  from Tetrahedron_nodes_self [OF n] assms(2) obtain p s d c
    where c: "n = Tetrahedron p s d c" and s: "0 < s" by blast
  have d: "0 < d"
  proof (rule ccontr)
    assume "\<not> 0 < d"
    then have "children (Tetrahedron p s d c) = []" by (rule Tetrahedron_leaf)
    with kc c show False by simp
  qed
  from Tetrahedron_child [OF d] kc c obtain p' c'
    where "snd kc = Tetrahedron p' (s / 2) (d - 1) c'" by blast
  with a b c s show ?thesis by (simp add: Tetrahedron_props)
qed

lemma Torus_node_depth:
  assumes "n \<in> set (nodes (Torus position radius tubeRadius depth))" and "0 \<le> depth"
  shows "0 \<le> torus_depth (props n) \<and> torus_depth (props n) \<le> depth
         \<and> (children n = [] \<longleftrightarrow> torus_depth (props n) = 0)"
proof -
  from Torus_nodes_self [OF assms(1)] assms(2) obtain p r t d
    where n: "n = Torus p r t d" and d: "0 \<le> d" "d \<le> depth" by blast
  have "children (Torus p r t d) = [] \<longleftrightarrow> d = 0"
  proof (cases "0 < d")
    case True
    with Torus_children_length [OF True, of p r t] show ?thesis by auto
  next
    case False
    with d Torus_leaf [of d p r t] show ?thesis by simp
  qed
  with n d show ?thesis by (simp add: Torus_props)
qed

lemma Torus_edge_shrinks:
  assumes "(a, b) \<in> set (edges (Torus position radius tubeRadius depth))"
    and "0 < tubeRadius" and "tubeRadius < radius"
  shows "torus_radius b < torus_radius a"
proof -
  from edges_nodes [OF assms(1)] obtain n kc
    where n: "n \<in> set (nodes (Torus position radius tubeRadius depth))" and a: "a = props n"
      and kc: "kc \<in> set (children n)" and b: "b = props (snd kc)" by blast
  from Torus_nodes_self [OF n] assms(2,3) obtain p r t d
    where c: "n = Torus p r t d" and t: "0 < t" "t < r" by blast
  have d: "0 < d"
  proof (rule ccontr)
    assume "\<not> 0 < d"
    then have "children (Torus p r t d) = []" by (rule Torus_leaf)
    with kc c show False by simp
  qed
  from Torus_child [OF d] kc c
  have "snd kc = Torus (0, 0, 0) (t / (pi / 2)) (t / (pi / 2) / 2) (d - 1)" by blast
  with a b c torus_ring_child(3) [OF t] show ?thesis by (simp add: Torus_props)
qed

text \<open>
  Claim C3, as amended. For every depth \<open>\<ge> 0\<close> and each of the three shapes, whatever the
  sizes are, the longest root-to-leaf path of the generated tree has exactly \<open>depth\<close> edges,
  every node's remaining depth lies between 0 and \<open>depth\<close>, and a node is childless exactly
  when its remaining depth is 0. Every child is strictly smaller than its parent (edge length
  for the cube and the tetrahedron, major radius for the torus) when the root size is
  positive and, for the torus, the root's tube radius is positive and smaller than its major
  radius, as the defaults 2 and 4 are.
\<close>

theorem C3_depth_and_sizes:
  assumes "0 \<le> depth"
  shows "max_depth (Cube position sz depth) = nat depth
    \<and> (\<forall>n \<in> set (nodes (Cube position sz depth)).
          0 \<le> cube_depth (props n) \<and> cube_depth (props n) \<le> depth
          \<and> (children n = [] \<longleftrightarrow> cube_depth (props n) = 0))
    \<and> max_depth (Tetrahedron position sz depth color) = nat depth
    \<and> (\<forall>n \<in> set (nodes (Tetrahedron position sz depth color)).
          0 \<le> tetra_depth (props n) \<and> tetra_depth (props n) \<le> depth
          \<and> (children n = [] \<longleftrightarrow> tetra_depth (props n) = 0))
    \<and> max_depth (Torus position radius tubeRadius depth) = nat depth
    \<and> (\<forall>n \<in> set (nodes (Torus position radius tubeRadius depth)).
          0 \<le> torus_depth (props n) \<and> torus_depth (props n) \<le> depth
          \<and> (children n = [] \<longleftrightarrow> torus_depth (props n) = 0))
    \<and> (0 < sz \<longrightarrow>
          (\<forall>(a, b) \<in> set (edges (Cube position sz depth)). cube_size b < cube_size a)
        \<and> (\<forall>(a, b) \<in> set (edges (Tetrahedron position sz depth color)).
              tetra_size b < tetra_size a))
    \<and> (0 < tubeRadius \<and> tubeRadius < radius \<longrightarrow>
          (\<forall>(a, b) \<in> set (edges (Torus position radius tubeRadius depth)).
              torus_radius b < torus_radius a))"
proof (intro conjI ballI impI)
  show "max_depth (Cube position sz depth) = nat depth" by (rule Cube_max_depth)
  show "max_depth (Tetrahedron position sz depth color) = nat depth"
    by (rule Tetrahedron_max_depth)
  show "max_depth (Torus position radius tubeRadius depth) = nat depth"
    by (rule Torus_max_depth)
next
  fix n assume "n \<in> set (nodes (Cube position sz depth))"
  from Cube_node_depth [OF this assms]
  show "0 \<le> cube_depth (props n)" "cube_depth (props n) \<le> depth"
    "children n = [] \<longleftrightarrow> cube_depth (props n) = 0" by simp_all
next
  fix n assume "n \<in> set (nodes (Tetrahedron position sz depth color))"
  from Tetrahedron_node_depth [OF this assms]
  show "0 \<le> tetra_depth (props n)" "tetra_depth (props n) \<le> depth"
    "children n = [] \<longleftrightarrow> tetra_depth (props n) = 0" by simp_all
next
  fix n assume "n \<in> set (nodes (Torus position radius tubeRadius depth))"
  from Torus_node_depth [OF this assms]
  show "0 \<le> torus_depth (props n)" "torus_depth (props n) \<le> depth"
    "children n = [] \<longleftrightarrow> torus_depth (props n) = 0" by simp_all
next
  fix e assume "0 < sz" and "e \<in> set (edges (Cube position sz depth))"
  then show "case e of (a, b) \<Rightarrow> cube_size b < cube_size a"
    by (auto intro: Cube_edge_shrinks)
next
  fix e assume "0 < sz" and "e \<in> set (edges (Tetrahedron position sz depth color))"
  then show "case e of (a, b) \<Rightarrow> tetra_size b < tetra_size a"
    by (auto intro: Tetrahedron_edge_shrinks)
next
  fix e assume "0 < tubeRadius \<and> tubeRadius < radius"
    and "e \<in> set (edges (Torus position radius tubeRadius depth))"
  then show "case e of (a, b) \<Rightarrow> torus_radius b < torus_radius a"
    by (auto intro: Torus_edge_shrinks)
qed

theorem C3_depth_and_sizes_witness:
  "(0::int) \<le> 1 \<and> (0::real) < 3 \<and> (0::real) < 2 \<and> (2::real) < 4
   \<and> max_depth (Cube (0, 0, 0) 3 1) = 1
   \<and> max_depth (Tetrahedron (0, 0, 0) 3 1 None) = 1
   \<and> max_depth (Torus (0, 0, 0) 4 2 1) = 1
   \<and> cube_size (snd (hd (edges (Cube (0, 0, 0) 3 1))))
       < cube_size (fst (hd (edges (Cube (0, 0, 0) 3 1))))
   \<and> torus_radius (snd (hd (edges (Torus (0, 0, 0) 4 2 1))))
       < torus_radius (fst (hd (edges (Torus (0, 0, 0) 4 2 1))))"
proof -
  have e: "hd (edges (Cube (0, 0, 0) 3 1)) \<in> set (edges (Cube (0, 0, 0) 3 1))"
    by (subst (1 2) edges_unfold) (simp add: Cube_children)
  have f: "hd (edges (Torus (0, 0, 0) 4 2 1)) \<in> set (edges (Torus (0, 0, 0) 4 2 1))"
    by (subst (1 2) edges_unfold) (simp add: Torus_children upt_4)
  from C3_depth_and_sizes [of 1 "(0, 0, 0)" 3 None 4 2] e f
  show ?thesis by (auto simp: split_beta)
qed

text \<open>
  The claim as stated fails for a torus whose tube is wider than its major radius: with major
  radius 1 and the default tube radius 2, the four children have major radius
  \<open>4 / pi > 1\<close>, and would be larger than their parent just as well if their radius were the
  parent's tube radius 2.
\<close>

theorem C3_torus_size_counterexample:
  "torus_radius (fst (hd (edges (Torus (0, 0, 0) 1 2 1)))) = 1
   \<and> torus_radius (snd (hd (edges (Torus (0, 0, 0) 1 2 1)))) = 4 / pi
   \<and> \<not> 4 / pi < (1::real)"
proof -
  have "4 / pi > (1::real)" using pi_less_4 by simp
  then show ?thesis
    by (subst (1 2) edges_unfold) (simp add: Torus_children Torus_props upt_4)
qed

subsection \<open>Colours\<close>

text \<open>
  Claim C4, as amended. The colour index of a cube is
  \<open>min (4 - depthRemaining) (paletteSize - 1)\<close> and that of a torus is \<open>4 - depthRemaining\<close>:
  the constant 4 stands where the claim has \<open>maxDepth\<close>, and there is no lower clamp. So a
  cube's index is always below the palette size, it is 4 for a cube with no depth remaining
  whatever the depth of the root was (10, say), it is not negative for a cube with at most 4
  levels remaining, and for a cube or torus with between 0 and 4 levels remaining it is
  \<open>clamp (4 - depthRemaining, 0, paletteSize - 1)\<close>.
\<close>

theorem C4_colorIndex:
  assumes "n \<in> set (nodes (Cube position sz maxDepth))"
    and "m \<in> set (nodes (Torus position' radius tubeRadius maxDepth'))"
  shows "cube_colorIndex (props n)
           = min (4 - cube_depth (props n)) (int (length Menger_DEPTH_COLORS) - 1)
    \<and> cube_colorIndex (props n) < int (length Menger_DEPTH_COLORS)
    \<and> (cube_depth (props n) = 0 \<longrightarrow> cube_colorIndex (props n) = 4)
    \<and> (cube_depth (props n) \<le> 4 \<longrightarrow> 0 \<le> cube_colorIndex (props n))
    \<and> (0 \<le> cube_depth (props n) \<and> cube_depth (props n) \<le> 4 \<longrightarrow>
          cube_colorIndex (props n)
            = spec_colorIndex 4 (cube_depth (props n)) (int (length Menger_DEPTH_COLORS)))
    \<and> torus_colorIndex (props m) = 4 - torus_depth (props m)
    \<and> (0 \<le> torus_depth (props m) \<and> torus_depth (props m) \<le> 4 \<longrightarrow>
          torus_colorIndex (props m)
            = spec_colorIndex 4 (torus_depth (props m)) (int (length Torus_DEPTH_COLORS)))"
proof -
  from Cube_nodes_self [OF assms(1)] obtain p s d where n: "n = Cube p s d" by blast
  from Torus_nodes_self [OF assms(2)] obtain p' r t d' where m: "m = Torus p' r t d'" by blast
  show ?thesis
    unfolding n m Cube_props Torus_props
    by (simp add: Menger_DEPTH_COLORS_def Torus_DEPTH_COLORS_def spec_colorIndex_def)
qed

theorem C4_colorIndex_witness:
  "snd (hd (children (Cube (0, 0, 0) 3 1))) \<in> set (nodes (Cube (0, 0, 0) 3 1))
   \<and> Torus (0, 0, 0) 4 2 1 \<in> set (nodes (Torus (0, 0, 0) 4 2 1))
   \<and> cube_depth (props (snd (hd (children (Cube (0, 0, 0) 3 1))))) = 0
   \<and> cube_colorIndex (props (snd (hd (children (Cube (0, 0, 0) 3 1))))) = 4
   \<and> spec_colorIndex 4 0 (int (length Menger_DEPTH_COLORS)) = 4
   \<and> torus_colorIndex (props (Torus (0, 0, 0) 4 2 1)) = 3"
proof -
  have c: "snd (hd (children (Cube (0, 0, 0) 3 1))) \<in> set (nodes (Cube (0, 0, 0) 3 1))"
    by (rule child_in_nodes) (simp add: Cube_children)
  have d: "cube_depth (props (snd (hd (children (Cube (0, 0, 0) 3 1))))) = 0"
    by (simp add: Cube_children Cube_props)
  from C4_colorIndex [OF c nodes_root [of "Torus (0, 0, 0) 4 2 1"]] c d
  show ?thesis
    by (simp add: nodes_root Torus_props spec_colorIndex_def Menger_DEPTH_COLORS_def)
qed

text \<open>
  The claim as stated fails at the roots: the default sponge (depth 3) has root index 1 where
  the claim's formula gives 0, and a sponge of depth 10 has the negative root index \<open>-6\<close>.
\<close>

theorem C4_colorIndex_counterexample:
  "cube_colorIndex (props MengerSponge) = 1
   \<and> spec_colorIndex 3 (cube_depth (props MengerSponge)) (int (length Menger_DEPTH_COLORS)) = 0
   \<and> cube_colorIndex (props (Cube (0, 0, 0) 3 10)) = - 6"
  by (simp add: MengerSponge_def Cube_props spec_colorIndex_def Menger_DEPTH_COLORS_def)

text \<open>
  Claim C10. A torus called with \<open>depth\<close> has the colour index \<open>4 - depth\<close>, unclamped, and
  a torus \<open>k\<close> levels below it has \<open>depth - k\<close> levels remaining and the index
  \<open>4 - (depth - k)\<close>. Whenever the index falls outside the palette's range 0..4 (for every
  torus with more than 4 levels remaining) the colour is the fallback \<open>#ffffff\<close>; otherwise it
  is the palette's colour at the index. So the colour is always a string, never \<open>undefined\<close>.
  Every torus of the tree is on one of its levels.
\<close>

theorem C10_torus_fallback_colour:
  assumes "n \<in> set (nodes_at k (Torus position radius tubeRadius depth))"
    and "m \<in> set (nodes (Torus position radius tubeRadius depth))"
  shows "torus_depth (props (Torus position radius tubeRadius depth)) = depth
    \<and> torus_colorIndex (props (Torus position radius tubeRadius depth)) = 4 - depth
    \<and> torus_color (props (Torus position radius tubeRadius depth))
        = (if 0 \<le> 4 - depth \<and> 4 - depth < int (length Torus_DEPTH_COLORS)
           then Some (Torus_DEPTH_COLORS ! nat (4 - depth)) else Some ''#ffffff'')
    \<and> torus_depth (props n) = depth - int k
    \<and> torus_colorIndex (props n) = 4 - (depth - int k)
    \<and> torus_color (props n)
        = (if 0 \<le> 4 - (depth - int k) \<and> 4 - (depth - int k) < int (length Torus_DEPTH_COLORS)
           then Some (Torus_DEPTH_COLORS ! nat (4 - (depth - int k))) else Some ''#ffffff'')
    \<and> (4 < depth - int k \<longrightarrow> torus_color (props n) = Some ''#ffffff'')
    \<and> torus_color (props n) \<noteq> None
    \<and> (\<exists>j. m \<in> set (nodes_at j (Torus position radius tubeRadius depth)))"
proof -
  have nonempty: "\<And>i. i < length Torus_DEPTH_COLORS \<Longrightarrow> Torus_DEPTH_COLORS ! i \<noteq> []"
    by (simp add: Torus_DEPTH_COLORS_def nth_Cons split: nat.splits)
  have colour: "torus_color (props (Torus p r t d))
        = (if 0 \<le> 4 - d \<and> 4 - d < int (length Torus_DEPTH_COLORS)
           then Some (Torus_DEPTH_COLORS ! nat (4 - d)) else Some ''#ffffff'')" for p r t d
    unfolding Torus_props by (auto simp: lookup_def nonempty)
  from Torus_nodes_self [OF nodes_at_nodes [OF assms(1)]]
  obtain p r t d where n: "n = Torus p r t d" by blast
  from Torus_nodes_at [OF assms(1)] n have d: "d = depth - int k" by (simp add: Torus_props)
  have root: "torus_depth (props (Torus position radius tubeRadius depth)) = depth"
    "torus_colorIndex (props (Torus position radius tubeRadius depth)) = 4 - depth"
    by (simp_all add: Torus_props)
  have level: "torus_depth (props n) = depth - int k"
    "torus_colorIndex (props n) = 4 - (depth - int k)"
    unfolding n d by (simp_all add: Torus_props)
  have col: "torus_color (props n)
        = (if 0 \<le> 4 - (depth - int k) \<and> 4 - (depth - int k) < int (length Torus_DEPTH_COLORS)
           then Some (Torus_DEPTH_COLORS ! nat (4 - (depth - int k))) else Some ''#ffffff'')"
    unfolding n d by (rule colour)
  have fallback: "4 < depth - int k \<longrightarrow> torus_color (props n) = Some ''#ffffff''"
    unfolding col by simp
  have defined: "torus_color (props n) \<noteq> None" unfolding col by simp
  from root colour [of position radius tubeRadius depth] level col fallback defined
    nodes_levels [OF assms(2)]
  show ?thesis by blast
qed

theorem C10_torus_fallback_colour_witness:
  "snd (children (Torus (0, 0, 0) 4 2 6) ! 0) \<in> set (nodes_at (Suc 0) (Torus (0, 0, 0) 4 2 6))
   \<and> snd (children (Torus (0, 0, 0) 4 2 6) ! 0) \<in> set (nodes (Torus (0, 0, 0) 4 2 6))
   \<and> (4::int) < 6 - int (Suc 0)
   \<and> torus_depth (props (snd (children (Torus (0, 0, 0) 4 2 6) ! 0))) = 5
   \<and> torus_colorIndex (props (snd (children (Torus (0, 0, 0) 4 2 6) ! 0))) = - 1
   \<and> torus_color (props (snd (children (Torus (0, 0, 0) 4 2 6) ! 0))) = Some ''#ffffff''
   \<and> torus_colorIndex (props TorusFractal) = - 2
   \<and> torus_color (props TorusFractal) = Some ''#ffffff''
   \<and> torus_colorIndex (props (Torus (0, 0, 0) 4 2 3)) = 1
   \<and> torus_color (props (Torus (0, 0, 0) 4 2 3)) = Some ''#00ff00''"
proof -
  let ?c = "snd (children (Torus (0, 0, 0) 4 2 6) ! 0)"
  have l: "?c \<in> set (nodes_at (Suc 0) (Torus (0, 0, 0) 4 2 6))"
    unfolding nodes_at_1 by (simp add: Torus_children upt_4)
  have m: "?c \<in> set (nodes (Torus (0, 0, 0) 4 2 6))" using l by (rule nodes_at_nodes)
  have r: "Torus (0, 0, 0) 4 2 3 \<in> set (nodes_at 0 (Torus (0, 0, 0) 4 2 3))" by simp
  from C10_torus_fallback_colour [OF l m]
    C10_torus_fallback_colour [OF r nodes_root [of "Torus (0, 0, 0) 4 2 3"]] l m
  show ?thesis by (simp add: TorusFractal_def Torus_DEPTH_COLORS_def)
qed

lemma Sierpinski_colour_defined:
  assumes "0 \<le> a"
  shows "lookup Sierpinski_DEPTH_COLORS (js_rem a 6)
           = Some (Sierpinski_DEPTH_COLORS ! nat (a mod 6))"
    and "Sierpinski_DEPTH_COLORS ! nat (a mod 6) \<noteq> []"
proof -
  have r: "js_rem a 6 = a mod 6" using assms by (cases "a = 0") (simp_all add: js_rem_def)
  have b: "0 \<le> a mod 6" "a mod 6 < 6" by simp_all
  then show "lookup Sierpinski_DEPTH_COLORS (js_rem a 6)
           = Some (Sierpinski_DEPTH_COLORS ! nat (a mod 6))"
    unfolding r by (simp add: lookup_def Sierpinski_DEPTH_COLORS_def)
  from b have "nat (a mod 6) < 6" by simp
  then show "Sierpinski_DEPTH_COLORS ! nat (a mod 6) \<noteq> []"
    by (simp add: Sierpinski_DEPTH_COLORS_def nth_Cons split: nat.splits)
qed

lemma Sierpinski_colours_distinct: "distinct Sierpinski_DEPTH_COLORS"
  by (simp add: Sierpinski_DEPTH_COLORS_def)

lemma Tetrahedron_child_colour:
  assumes "0 < depth" and "depth \<le> 5"
    and "(i, c) \<in> set (children (Tetrahedron position sz depth color))"
  shows "i < 4"
    and "tetra_displayColor (props c)
           = Some (Sierpinski_DEPTH_COLORS ! nat ((5 - depth + int i) mod 6))"
proof -
  from assms(3) have i: "i < 4"
    and c: "c = Tetrahedron (vertices position (sz / 2) ! i) (sz / 2) (depth - 1)
                  (lookup Sierpinski_DEPTH_COLORS (js_rem (5 - depth + int i) 6))"
    unfolding Tetrahedron_children [OF assms(1)] set_map by auto
  show "i < 4" by (rule i)
  from assms(2) have "0 \<le> 5 - depth + int i" by simp
  from Sierpinski_colour_defined [OF this]
  show "tetra_displayColor (props c)
           = Some (Sierpinski_DEPTH_COLORS ! nat ((5 - depth + int i) mod 6))"
    unfolding c Tetrahedron_props by simp
qed

lemma sibling_index_differs:
  assumes "i < 4" and "j < 4" and "i \<noteq> j"
  shows "nat ((a + int i) mod 6) \<noteq> nat ((a + int j) mod 6)"
proof
  assume "nat ((a + int i) mod 6) = nat ((a + int j) mod 6)"
  then have "(a + int i) mod 6 = (a + int j) mod 6" by simp
  then have "6 dvd (a + int i) - (a + int j)" by (simp only: mod_eq_dvd_iff)
  then have d: "6 dvd int i - int j" by simp
  from assms(3) have "int i - int j \<noteq> 0" by simp
  from dvd_imp_le_int [OF this d] assms(1,2) show False by simp
qed

text \<open>
  Claim C8, as amended. For the cube and the torus a node's colour is a function of its
  remaining depth alone, so any two nodes on the same level of one generated tree have the
  same colour. For the tetrahedron the colour of a child is chosen by its parent, from the
  parent's remaining depth \<open>d\<close> and the child's index \<open>i\<close> among its four siblings: for
  \<open>d \<le> 5\<close> it is \<open>DEPTH_COLORS[(5 - d + i) % 6]\<close>, so the four children of one parent have
  four different colours.
\<close>

theorem C8_colours_by_level:
  assumes "n \<in> set (nodes_at k (Cube position sz depth))"
    and "n' \<in> set (nodes_at k (Cube position sz depth))"
    and "m \<in> set (nodes_at k' (Torus position' radius tubeRadius depth'))"
    and "m' \<in> set (nodes_at k' (Torus position' radius tubeRadius depth'))"
    and "t \<in> set (nodes (Tetrahedron position'' sz'' depth'' color))"
    and "tetra_depth (props t) \<le> 5"
    and "(i, c) \<in> set (children t)" and "(j, c') \<in> set (children t)"
  shows "cube_color (props n) = cube_color (props n')
    \<and> cube_color (props n) = lookup Menger_DEPTH_COLORS (min (4 - cube_depth (props n)) 4)
    \<and> torus_color (props m) = torus_color (props m')
    \<and> torus_color (props m)
        = js_or (lookup Torus_DEPTH_COLORS (4 - torus_depth (props m))) (Some ''#ffffff'')
    \<and> tetra_displayColor (props c)
        = Some (Sierpinski_DEPTH_COLORS ! nat ((5 - tetra_depth (props t) + int i) mod 6))
    \<and> (i \<noteq> j \<longrightarrow> tetra_displayColor (props c) \<noteq> tetra_displayColor (props c'))"
proof -
  from Cube_nodes_self [OF nodes_at_nodes [OF assms(1)]]
  obtain p s d where n: "n = Cube p s d" by blast
  from Cube_nodes_self [OF nodes_at_nodes [OF assms(2)]]
  obtain p' s' d' where n': "n' = Cube p' s' d'" by blast
  from Cube_nodes_at [OF assms(1)] Cube_nodes_at [OF assms(2)] n n'
  have "d = d'" by (simp add: Cube_props)
  with n n' have cube: "cube_color (props n) = cube_color (props n')"
    "cube_color (props n) = lookup Menger_DEPTH_COLORS (min (4 - cube_depth (props n)) 4)"
    by (simp_all add: Cube_props)
  from Torus_nodes_self [OF nodes_at_nodes [OF assms(3)]]
  obtain q r u e where m: "m = Torus q r u e" by blast
  from Torus_nodes_self [OF nodes_at_nodes [OF assms(4)]]
  obtain q' r' u' e' where m': "m' = Torus q' r' u' e'" by blast
  from Torus_nodes_at [OF assms(3)] Torus_nodes_at [OF assms(4)] m m'
  have "e = e'" by (simp add: Torus_props)
  with m m' have torus: "torus_color (props m) = torus_color (props m')"
    "torus_color (props m)
        = js_or (lookup Torus_DEPTH_COLORS (4 - torus_depth (props m))) (Some ''#ffffff'')"
    by (simp_all add: Torus_props)
  from Tetrahedron_nodes_self [OF assms(5)]
  obtain a b g col where t: "t = Tetrahedron a b g col" by blast
  have g: "0 < g"
  proof (rule ccontr)
    assume "\<not> 0 < g"
    then have "children (Tetrahedron a b g col) = []" by (rule Tetrahedron_leaf)
    with assms(7) t show False by simp
  qed
  from assms(6) t have g5: "g \<le> 5" by (simp add: Tetrahedron_props)
  from assms(7,8) t have ic: "(i, c) \<in> set (children (Tetrahedron a b g col))"
    and jc: "(j, c') \<in> set (children (Tetrahedron a b g col))" by simp_all
  note ci = Tetrahedron_child_colour [OF g g5 ic]
  note cj = Tetrahedron_child_colour [OF g g5 jc]
  have tetra: "tetra_displayColor (props c)
        = Some (Sierpinski_DEPTH_COLORS ! nat ((5 - tetra_depth (props t) + int i) mod 6))"
    using ci(2) t by (simp add: Tetrahedron_props)
  have differ: "tetra_displayColor (props c) \<noteq> tetra_displayColor (props c')" if "i \<noteq> j"
  proof -
    let ?a = "nat ((5 - g + int i) mod 6)" and ?b = "nat ((5 - g + int j) mod 6)"
    from sibling_index_differs [OF ci(1) cj(1) that] have "?a \<noteq> ?b" .
    moreover have "?a < length Sierpinski_DEPTH_COLORS" "?b < length Sierpinski_DEPTH_COLORS"
      by (simp_all add: Sierpinski_DEPTH_COLORS_def)
    ultimately have "Sierpinski_DEPTH_COLORS ! ?a \<noteq> Sierpinski_DEPTH_COLORS ! ?b"
      using Sierpinski_colours_distinct by (simp add: nth_eq_iff_index_eq)
    with ci(2) cj(2) show ?thesis by simp
  qed
  from cube torus tetra differ show ?thesis by blast
qed

theorem C8_colours_by_level_witness:
  "cube_color (props (snd (children (Cube (0, 0, 0) 3 1) ! 0)))
     = cube_color (props (snd (children (Cube (0, 0, 0) 3 1) ! 1)))
   \<and> torus_color (props (snd (children (Torus (0, 0, 0) 4 2 1) ! 0)))
     = torus_color (props (snd (children (Torus (0, 0, 0) 4 2 1) ! 1)))
   \<and> tetra_depth (props (Tetrahedron (0, 0, 0) 5 1 None)) \<le> 5
   \<and> tetra_displayColor (props (snd (children (Tetrahedron (0, 0, 0) 5 1 None) ! 0)))
     = Some ''#ff33ff''
   \<and> tetra_displayColor (props (snd (children (Tetrahedron (0, 0, 0) 5 1 None) ! 0)))
     \<noteq> tetra_displayColor (props (snd (children (Tetrahedron (0, 0, 0) 5 1 None) ! 1)))"
proof -
  let ?C = "Cube (0, 0, 0) 3 1" and ?R = "Torus (0, 0, 0) 4 2 1"
    and ?T = "Tetrahedron (0, 0, 0) 5 1 None"
  have c: "snd (children ?C ! 0) \<in> set (nodes_at (Suc 0) ?C)"
    "snd (children ?C ! 1) \<in> set (nodes_at (Suc 0) ?C)"
    unfolding nodes_at_1 by (simp_all add: Cube_children)
  have r: "snd (children ?R ! 0) \<in> set (nodes_at (Suc 0) ?R)"
    "snd (children ?R ! 1) \<in> set (nodes_at (Suc 0) ?R)"
    unfolding nodes_at_1 by (simp_all add: Torus_children upt_4)
  have t: "?T \<in> set (nodes ?T)" by (rule nodes_root)
  have d: "tetra_depth (props ?T) \<le> 5" by (simp add: Tetrahedron_props)
  have k: "(0, snd (children ?T ! 0)) \<in> set (children ?T)"
    "(1, snd (children ?T ! 1)) \<in> set (children ?T)"
    by (simp_all add: Tetrahedron_children upt_4)
  from C8_colours_by_level [OF c r t d k]
  have "cube_color (props (snd (children ?C ! 0))) = cube_color (props (snd (children ?C ! 1)))"
    and "torus_color (props (snd (children ?R ! 0)))
           = torus_color (props (snd (children ?R ! 1)))"
    and "tetra_displayColor (props (snd (children ?T ! 0)))
           = Some (Sierpinski_DEPTH_COLORS ! nat ((5 - tetra_depth (props ?T) + int 0) mod 6))"
    and "tetra_displayColor (props (snd (children ?T ! 0)))
           \<noteq> tetra_displayColor (props (snd (children ?T ! 1)))"
    by auto
  with d show ?thesis
    by (simp add: Tetrahedron_props Sierpinski_DEPTH_COLORS_def)
qed

text \<open>
  The claim as stated fails for the tetrahedron: the first two children of the default root
  are on the same level and have different colours.
\<close>

theorem C8_tetrahedron_counterexample:
  "snd (children SierpinskiTetrahedron ! 0) \<in> set (nodes_at (Suc 0) SierpinskiTetrahedron)
   \<and> snd (children SierpinskiTetrahedron ! 1) \<in> set (nodes_at (Suc 0) SierpinskiTetrahedron)
   \<and> tetra_displayColor (props (snd (children SierpinskiTetrahedron ! 0))) = Some ''#33ff33''
   \<and> tetra_displayColor (props (snd (children SierpinskiTetrahedron ! 1))) = Some ''#3333ff''"
  unfolding nodes_at_1 SierpinskiTetrahedron_def
  by (simp add: Tetrahedron_children Tetrahedron_props upt_4 lookup_def js_rem_def
      Sierpinski_DEPTH_COLORS_def)

subsection \<open>The children of a torus\<close>

text \<open>
  Claim C5, evaluated at the default root (major radius 4, tube radius 2, depth 6). It has
  four children, at the angles 0, \<open>pi / 2\<close>, \<open>pi\<close> and \<open>3 pi / 2\<close>, and each child's tube radius
  is half its major radius. But the child's major radius is \<open>tubeRadius / (pi / 2) = 4 / pi\<close>,
  which is not the parent's tube radius 2.
\<close>

theorem C5_default_torus_children:
  "torus_tubeRadius (props TorusFractal) = 2
   \<and> map (\<lambda>kc. group_angle (fst kc)) (children TorusFractal) = [0, pi / 2, pi, 3 * pi / 2]
   \<and> map (\<lambda>kc. torus_radius (props (snd kc))) (children TorusFractal)
        = [4 / pi, 4 / pi, 4 / pi, 4 / pi]
   \<and> map (\<lambda>kc. torus_tubeRadius (props (snd kc))) (children TorusFractal)
        = [4 / pi / 2, 4 / pi / 2, 4 / pi / 2, 4 / pi / 2]
   \<and> 4 / pi \<noteq> (2::real)"
proof -
  have "4 / pi \<noteq> (2::real)" using pi_gt_two by (simp add: field_simps)
  then show ?thesis
    unfolding TorusFractal_def by (simp add: Torus_children Torus_props upt_4)
qed

section \<open>Facts about the automaton\<close>

subsection \<open>The rule\<close>

lemma nextState_values:
  "map nextState [0, 1, 2, 3, 4, 5, 6, 7] = [0, 1, 1, 1, 1, 0, 0, 0]"
  by (simp add: nextState_def)

lemma pattern_bits:
  "[pattern l c r. l \<leftarrow> [0, 1], c \<leftarrow> [0, 1], r \<leftarrow> [0, 1]] = [0, 1, 2, 3, 4, 5, 6, 7]"
  by (simp add: pattern_def)

lemma nextState_bit: "nextState p = 0 \<or> nextState p = 1"
  by (simp add: nextState_def)

lemma array_set_in_range: "i < length xs \<Longrightarrow> array_set xs i v = xs[i := v]"
  by (simp add: array_set_def)

lemma fold_array_set:
  "n \<le> length xs \<Longrightarrow>
     fold (\<lambda>j ys. array_set ys j (f j)) [0..<n] xs = map f [0..<n] @ drop n xs"
proof (induction n)
  case 0
  then show ?case by simp
next
  case (Suc n)
  then have n: "n < length xs" by simp
  have "drop n xs = xs ! n # drop (Suc n) xs" using n by (simp add: Cons_nth_drop_Suc)
  then have "(map f [0..<n] @ drop n xs)[n := f n] = map f [0..<n] @ f n # drop (Suc n) xs"
    by (simp add: list_update_append)
  moreover have "n < length (map f [0..<n] @ drop n xs)" using n by simp
  ultimately show ?case using Suc n by (simp add: array_set_in_range)
qed

lemma nextGeneration_map:
  "nextGeneration width prevGen =
     map (\<lambda>j. nextState (pattern (if j = 0 then 0 else cell prevGen (j - 1))
                                (cell prevGen j)
                                (if j = width - 1 then 0 else cell prevGen (j + 1))))
       [0..<width]"
  unfolding nextGeneration_def Let_def
  by (subst fold_array_set) simp_all

lemma initialState_spec:
  "0 < width \<Longrightarrow> initialState width = map (spec_cells width 0) [0..<width]"
  by (rule nth_equalityI) (simp_all add: initialState_def array_set_def)

lemma cell_spec_row:
  "c < width \<Longrightarrow> cell (map (spec_cells width r) [0..<width]) c = spec_cells width r c"
  by (simp add: cell_def)

lemma nextGeneration_spec:
  "nextGeneration width (map (spec_cells width r) [0..<width])
     = map (spec_cells width (Suc r)) [0..<width]"
proof (rule nth_equalityI)
  show "length (nextGeneration width (map (spec_cells width r) [0..<width]))
          = length (map (spec_cells width (Suc r)) [0..<width])"
    by (simp add: nextGeneration_map)
next
  fix j assume "j < length (nextGeneration width (map (spec_cells width r) [0..<width]))"
  then have j: "j < width" by (simp add: nextGeneration_map)
  have l: "j \<noteq> 0 \<Longrightarrow> cell (map (spec_cells width r) [0..<width]) (j - 1)
                      = spec_cells width r (j - 1)"
    using j by (simp add: cell_spec_row)
  have r: "j \<noteq> width - 1 \<Longrightarrow> cell (map (spec_cells width r) [0..<width]) (j + 1)
                      = spec_cells width r (j + 1)"
    using j by (simp add: cell_spec_row)
  have e: "j = width - 1 \<longleftrightarrow> j + 1 = width" using j by auto
  show "nextGeneration width (map (spec_cells width r) [0..<width]) ! j
          = map (spec_cells width (Suc r)) [0..<width] ! j"
    using j l r e by (simp add: nextGeneration_map cell_spec_row)
qed

lemma generations_spec:
  "0 < width \<Longrightarrow>
   fold (\<lambda>i allGenerations.
           allGenerations @ [nextGeneration width (allGenerations ! i)])
     [0..<k] [initialState width]
   = map (\<lambda>r. map (spec_cells width r) [0..<width]) [0..<Suc k]"
proof (induction k)
  case 0
  then show ?case by (simp add: initialState_spec)
next
  case (Suc k)
  let ?rows = "map (\<lambda>r. map (spec_cells width r) [0..<width]) [0..<Suc k]"
  from Suc have IH: "fold (\<lambda>i allGenerations.
           allGenerations @ [nextGeneration width (allGenerations ! i)])
     [0..<k] [initialState width] = ?rows" by simp
  have k: "?rows ! k = map (spec_cells width k) [0..<width]"
    by (simp only: nth_map_upt) simp
  have "fold (\<lambda>i allGenerations.
           allGenerations @ [nextGeneration width (allGenerations ! i)])
     [0..<Suc k] [initialState width] = ?rows @ [nextGeneration width (?rows ! k)]"
    by (simp only: upt_Suc_append [OF le0] fold_append fold_simps comp_apply IH)
  also have "\<dots> = ?rows @ [map (spec_cells width (Suc k)) [0..<width]]"
    by (simp only: k nextGeneration_spec)
  also have "\<dots> = map (\<lambda>r. map (spec_cells width r) [0..<width]) [0..<Suc (Suc k)]"
    by simp
  finally show ?case .
qed

lemma allGenerations_spec:
  "0 < width \<Longrightarrow> 0 < gens \<Longrightarrow>
   allGenerations (int width) (int gens)
     = Inr (map (\<lambda>r. map (spec_cells width r) [0..<width]) [0..<gens])"
proof -
  assume w: "0 < width" and g: "0 < gens"
  then have "nat (int gens - 1) = gens - 1" by simp
  moreover from g have "Suc (gens - 1) = gens" by simp
  ultimately show ?thesis
    using generations_spec [OF w, of "gens - 1"] by (simp add: allGenerations_def)
qed

subsection \<open>The byte buffer\<close>

lemma typed_set_nat: "typed_set data (int i) v = data[i := v]"
  by (simp add: typed_set_def not_less list_update_beyond)

lemma typed_set_nat_3: "typed_set data (int i + 3) v = data[i + 3 := v]"
  using typed_set_nat [of data "i + 3" v] by simp

lemma length_typed_set [simp]: "length (typed_set data i v) = length data"
  by (simp add: typed_set_def)

lemma red_update_other: "i \<noteq> j \<Longrightarrow> red (data[j := v]) i = red data i"
  by (simp add: red_def)

lemma red_update_same: "i < length data \<Longrightarrow> red (data[i := v]) i = (if 0 < v then 1 else 0)"
  by (simp add: red_def)

lemma red_cong: "length d = length d' \<Longrightarrow> d ! i = d' ! i \<Longrightarrow> red d i = red d' i"
  by (simp add: red_def)

lemma red_nonzero: "i < length data \<Longrightarrow> red data i = 1 \<longleftrightarrow> data ! i \<noteq> 0"
  by (simp add: red_def word_gt_0)

lemma applyRule_updates:
  "applyRule width y x data =
     data[((y + 1) * width + x) * 4 := of_int (nextStateAt width y x data * 255),
          ((y + 1) * width + x) * 4 + 3 := 255]"
  by (simp only: applyRule_def Let_def typed_set_nat typed_set_nat_3)


lemma nextStateAt_bit: "nextStateAt width y x data = 0 \<or> nextStateAt width y x data = 1"
  unfolding nextStateAt_def Let_def by (rule nextState_bit)

lemma byte_of_bit:
  "b = 0 \<or> b = 1 \<Longrightarrow> (if 0 < (of_int (b * 255) :: u8) then 1 else 0) = b"
  by auto

lemma nextStateAt_cong:
  assumes "x \<noteq> 0 \<Longrightarrow> red d ((y * width + (x - 1)) * 4) = red d' ((y * width + (x - 1)) * 4)"
    and "red d ((y * width + x) * 4) = red d' ((y * width + x) * 4)"
    and "x \<noteq> width - 1 \<Longrightarrow>
           red d ((y * width + (x + 1)) * 4) = red d' ((y * width + (x + 1)) * 4)"
  shows "nextStateAt width y x d = nextStateAt width y x d'"
  using assms by (cases "x = 0"; cases "x = width - 1") (simp_all add: nextStateAt_def)

text \<open>One run of the inner loop: row \<open>y + 1\<close> is filled from row \<open>y\<close>, which stays as it was.\<close>

lemma inner_loop:
  assumes "(y + 2) * width * 4 \<le> length data" and "n \<le> width"
  shows "length (fold (applyRule width y) [0..<n] data) = length data
    \<and> (\<forall>i < (y + 1) * width * 4. fold (applyRule width y) [0..<n] data ! i = data ! i)
    \<and> (\<forall>x < n. red (fold (applyRule width y) [0..<n] data) (((y + 1) * width + x) * 4)
                 = nextStateAt width y x data)"
  using assms(2)
proof (induction n)
  case 0
  then show ?case by simp
next
  case (Suc n)
  define A where "A = y * width"
  define B where "B = (y + 1) * width"
  define D where "D = fold (applyRule width y) [0..<n] data"
  have AB: "B = A + width" by (simp add: A_def B_def)
  from assms(1) have len: "(B + width) * 4 \<le> length data" by (simp add: B_def algebra_simps)
  from Suc.prems have n: "n < width" by simp
  from Suc.IH n have lenD: "length D = length data"
    and keep: "\<And>i. i < B * 4 \<Longrightarrow> D ! i = data ! i"
    and filled: "\<And>x. x < n \<Longrightarrow> red D ((B + x) * 4) = nextStateAt width y x data"
    by (simp_all add: D_def B_def)
  have reads: "red D ((A + x) * 4) = red data ((A + x) * 4)" if "x < width" for x
  proof (rule red_cong [OF lenD])
    from that have "(A + x) * 4 < B * 4" by (simp add: AB)
    then show "D ! ((A + x) * 4) = data ! ((A + x) * 4)" by (rule keep)
  qed
  have same: "nextStateAt width y n D = nextStateAt width y n data"
  proof -
    have l: "red D ((A + (n - 1)) * 4) = red data ((A + (n - 1)) * 4)"
      using n by (intro reads) simp
    have c: "red D ((A + n) * 4) = red data ((A + n) * 4)"
      using n by (intro reads)
    have r: "red D ((A + (n + 1)) * 4) = red data ((A + (n + 1)) * 4)" if "n \<noteq> width - 1"
      using n that by (intro reads) simp
    show ?thesis
    proof (rule nextStateAt_cong)
      show "red D ((y * width + (n - 1)) * 4) = red data ((y * width + (n - 1)) * 4)"
        using l by (simp only: A_def)
      show "red D ((y * width + n) * 4) = red data ((y * width + n) * 4)"
        using c by (simp only: A_def)
      show "red D ((y * width + (n + 1)) * 4) = red data ((y * width + (n + 1)) * 4)"
        if "n \<noteq> width - 1"
        using r [OF that] by (simp only: A_def)
    qed
  qed
  have step: "fold (applyRule width y) [0..<Suc n] data
                = D[(B + n) * 4 := of_int (nextStateAt width y n data * 255),
                    (B + n) * 4 + 3 := 255]"
  proof -
    have "fold (applyRule width y) [0..<Suc n] data = applyRule width y n D"
      by (simp add: D_def)
    also have "\<dots> = D[(B + n) * 4 := of_int (nextStateAt width y n D * 255),
                         (B + n) * 4 + 3 := 255]"
      by (simp only: applyRule_updates B_def)
    finally show ?thesis by (simp only: same)
  qed
  have inr: "(B + n) * 4 < length D" using len n lenD by simp
  show ?case
  proof (intro conjI allI impI)
    show "length (fold (applyRule width y) [0..<Suc n] data) = length data"
      unfolding step by (simp add: lenD)
  next
    fix i assume "i < (y + 1) * width * 4"
    then have i: "i < B * 4" by (simp add: B_def)
    then have "i \<noteq> (B + n) * 4" "i \<noteq> (B + n) * 4 + 3" by simp_all
    then show "fold (applyRule width y) [0..<Suc n] data ! i = data ! i"
      unfolding step using keep [OF i] by simp
  next
    fix x assume x: "x < Suc n"
    show "red (fold (applyRule width y) [0..<Suc n] data) (((y + 1) * width + x) * 4)
            = nextStateAt width y x data"
    proof (cases "x = n")
      case True
      have "red (D[(B + n) * 4 := of_int (nextStateAt width y n data * 255),
                   (B + n) * 4 + 3 := 255]) ((B + n) * 4)
              = (if 0 < (of_int (nextStateAt width y n data * 255) :: u8) then 1 else 0)"
        using inr by (simp add: red_update_other red_update_same)
      also have "\<dots> = nextStateAt width y n data"
        by (rule byte_of_bit) (rule nextStateAt_bit)
      finally show ?thesis unfolding step True B_def .
    next
      case False
      with x have xn: "x < n" by simp
      then have "(B + x) * 4 \<noteq> (B + n) * 4" "(B + x) * 4 \<noteq> (B + n) * 4 + 3" by simp_all
      then have "red (D[(B + n) * 4 := of_int (nextStateAt width y n data * 255),
                        (B + n) * 4 + 3 := 255]) ((B + x) * 4) = red D ((B + x) * 4)"
        by (simp add: red_update_other)
      with filled [OF xn] show ?thesis unfolding step B_def by simp
    qed
  qed
qed

lemma clear_step:
  "(let i = 4 * int k;
        data = typed_set data i 0;
        data = typed_set data (i + 1) 0;
        data = typed_set data (i + 2) 0
    in typed_set data (i + 3) 255)
   = data[4 * k := 0, 4 * k + 1 := 0, 4 * k + 2 := 0, 4 * k + 3 := 255]"
proof -
  have "4 * int k = int (4 * k)" "4 * int k + 1 = int (4 * k + 1)"
    "4 * int k + 2 = int (4 * k + 2)" "4 * int k + 3 = int (4 * k + 3)"
    by simp_all
  then show ?thesis by (simp only: Let_def typed_set_nat)
qed

lemma clearCells_keeps_red:
  assumes "\<And>i. i < length data \<Longrightarrow> i mod 4 = 0 \<Longrightarrow> data ! i = 0"
  shows "length (clearCells n data) = length data
    \<and> (\<forall>i < length data. i mod 4 = 0 \<longrightarrow> clearCells n data ! i = 0)"
proof (induction n)
  case 0
  then show ?case using assms by (simp add: clearCells_def)
next
  case (Suc n)
  define D where "D = clearCells n data"
  from Suc have len: "length D = length data"
    and zero: "\<And>i. i < length data \<Longrightarrow> i mod 4 = 0 \<Longrightarrow> D ! i = 0"
    by (simp_all add: D_def)
  have step: "clearCells (Suc n) data
                = D[4 * n := 0, 4 * n + 1 := 0, 4 * n + 2 := 0, 4 * n + 3 := 255]"
    unfolding clearCells_def D_def by (simp only: upt_Suc_append [OF le0] fold_append
        fold_simps comp_apply clear_step)
  show ?case
  proof (intro conjI allI impI)
    show "length (clearCells (Suc n) data) = length data" unfolding step by (simp add: len)
  next
    fix i assume i: "i < length data" "i mod 4 = 0"
    then have "i \<noteq> 4 * n + 1" "i \<noteq> 4 * n + 2" "i \<noteq> 4 * n + 3" by presburger+
    with zero [OF i] i len show "clearCells (Suc n) data ! i = 0"
      unfolding step by (cases "i = 4 * n") simp_all
  qed
qed

text \<open>The buffer after the clearing loop and the write of the seed cell.\<close>

lemma seed_row:
  assumes "0 < width" and "0 < height" and "c < width"
  shows "red ((clearCells (width * height) (replicate (width * height * 4) 0))
                [(width div 2) * 4 := 255]) (c * 4)
           = spec_cells width 0 c"
proof -
  define D where "D = clearCells (width * height) (replicate (width * height * 4) 0)"
  have "length D = width * height * 4
    \<and> (\<forall>i < width * height * 4. i mod 4 = 0 \<longrightarrow> D ! i = 0)"
    using clearCells_keeps_red [of "replicate (width * height * 4) 0" "width * height"]
    by (simp add: D_def)
  then have len: "length D = width * height * 4"
    and zero: "\<And>i. i < width * height * 4 \<Longrightarrow> i mod 4 = 0 \<Longrightarrow> D ! i = 0" by simp_all
  have "width * 1 \<le> width * height" using assms(2) by (intro mult_le_mono2) simp
  then have w: "width \<le> width * height" by simp
  from assms(3) w have "c < width * height" by (rule less_le_trans)
  then have c: "c * 4 < width * height * 4" by simp
  show ?thesis
  proof (cases "c = width div 2")
    case True
    with c len show ?thesis unfolding D_def [symmetric] by (simp add: red_update_same)
  next
    case False
    then have "c * 4 \<noteq> (width div 2) * 4" by simp
    then have "red (D[(width div 2) * 4 := 255]) (c * 4) = red D (c * 4)"
      by (rule red_update_other)
    also have "\<dots> = 0" using zero [OF c] by (simp add: red_def)
    finally show ?thesis using False unfolding D_def [symmetric] by simp
  qed
qed

text \<open>The outer loop: after \<open>k\<close> rounds, rows 0 to \<open>k\<close> hold the automaton.\<close>

lemma outer_loop:
  assumes "length data = width * height * 4"
    and "\<And>c. c < width \<Longrightarrow> red data (c * 4) = spec_cells width 0 c"
    and "k < height"
  shows "length (fold (\<lambda>y data. fold (\<lambda>x data. applyRule width y x data) [0..<width] data)
                   [0..<k] data) = length data
    \<and> (\<forall>r \<le> k. \<forall>c < width.
          red (fold (\<lambda>y data. fold (\<lambda>x data. applyRule width y x data) [0..<width] data)
                 [0..<k] data) ((r * width + c) * 4)
            = spec_cells width r c)"
  using assms(3)
proof (induction k)
  case 0
  then show ?case using assms(2) by simp
next
  case (Suc k)
  define E where
    "E = fold (\<lambda>y data. fold (\<lambda>x data. applyRule width y x data) [0..<width] data)
           [0..<k] data"
  from Suc have lenE: "length E = length data"
    and rows: "\<And>r c. r \<le> k \<Longrightarrow> c < width \<Longrightarrow> red E ((r * width + c) * 4) = spec_cells width r c"
    by (simp_all add: E_def)
  have step: "fold (\<lambda>y data. fold (\<lambda>x data. applyRule width y x data) [0..<width] data)
                [0..<Suc k] data = fold (applyRule width k) [0..<width] E"
    by (simp add: E_def)
  from Suc.prems have "k + 2 \<le> height" by simp
  then have "(k + 2) * width \<le> height * width" by (rule mult_le_mono1)
  then have room: "(k + 2) * width * 4 \<le> length E"
    by (simp add: lenE assms(1) mult.commute)
  from inner_loop [OF room le_refl]
  have len': "length (fold (applyRule width k) [0..<width] E) = length E"
    and keep: "\<And>i. i < (k + 1) * width * 4 \<Longrightarrow> fold (applyRule width k) [0..<width] E ! i = E ! i"
    and new: "\<And>x. x < width \<Longrightarrow>
                red (fold (applyRule width k) [0..<width] E) (((k + 1) * width + x) * 4)
                  = nextStateAt width k x E"
    by simp_all
  have rule: "nextStateAt width k x E = spec_cells width (Suc k) x" if x: "x < width" for x
  proof -
    have e: "x = width - 1 \<longleftrightarrow> x + 1 = width" using x by auto
    have c: "red E ((k * width + x) * 4) = spec_cells width k x"
      using x by (intro rows) simp_all
    have l: "red E ((k * width + (x - 1)) * 4) = spec_cells width k (x - 1)"
      using x by (intro rows) simp_all
    have r: "red E ((k * width + (x + 1)) * 4) = spec_cells width k (x + 1)"
      if "x + 1 \<noteq> width"
      using x that by (intro rows) simp_all
    show ?thesis
      unfolding nextStateAt_def Let_def spec_cells.simps e
      using r by (simp only: l c) auto
  qed
  show ?case
  proof (intro conjI allI impI)
    show "length (fold (\<lambda>y data. fold (\<lambda>x data. applyRule width y x data) [0..<width] data)
                   [0..<Suc k] data) = length data"
      unfolding step by (simp add: len' lenE)
  next
    fix r c assume r: "r \<le> Suc k" and c: "c < width"
    show "red (fold (\<lambda>y data. fold (\<lambda>x data. applyRule width y x data) [0..<width] data)
                 [0..<Suc k] data) ((r * width + c) * 4)
            = spec_cells width r c"
    proof (cases "r = Suc k")
      case True
      with new [OF c] rule [OF c] show ?thesis unfolding step by simp
    next
      case False
      with r have rk: "r \<le> k" by simp
      then have b: "(r + 1) * width \<le> (k + 1) * width" by (intro mult_le_mono1) simp
      have a: "r * width + c < (r + 1) * width" using c by simp
      from a b have "r * width + c < (k + 1) * width" by (rule less_le_trans)
      then have "(r * width + c) * 4 < (k + 1) * width * 4" by (simp only: mult_less_cancel2) simp
      from keep [OF this] have "red (fold (applyRule width k) [0..<width] E) ((r * width + c) * 4)
                                  = red E ((r * width + c) * 4)"
        by (intro red_cong len')
      with rows [OF rk c] show ?thesis unfolding step by simp
    qed
  qed
qed

lemma createRule30Texture_spec:
  assumes "0 < width" and "0 < height"
  shows "\<exists>data. createRule30Texture (int width) (int height) = Inr data
    \<and> length data = width * height * 4
    \<and> (\<forall>r < height. \<forall>c < width. red data ((r * width + c) * 4) = spec_cells width r c)"
proof -
  define D where "D = (clearCells (width * height) (replicate (width * height * 4) 0))
                        [(width div 2) * 4 := 255]"
  have lenD: "length D = width * height * 4"
    using clearCells_keeps_red [of "replicate (width * height * 4) 0" "width * height"]
    by (simp add: D_def)
  have seed: "\<And>c. c < width \<Longrightarrow> red D (c * 4) = spec_cells width 0 c"
    unfolding D_def by (rule seed_row [OF assms])
  define R where
    "R = fold (\<lambda>y data. fold (\<lambda>x data. applyRule width y x data) [0..<width] data)
           [0..<height - 1] D"
  from assms(2) have "height - 1 < height" by simp
  from outer_loop [OF lenD seed this]
  have lenR: "length R = width * height * 4"
    and rows: "\<And>r c. r \<le> height - 1 \<Longrightarrow> c < width \<Longrightarrow>
                 red R ((r * width + c) * 4) = spec_cells width r c"
    by (simp_all add: R_def lenD)
  have idx: "(0 * int width + int width div 2) * 4 = int ((width div 2) * 4)"
    by (simp add: zdiv_int)
  have "0 \<le> int width * int height * 4" by (intro mult_nonneg_nonneg) simp_all
  then have "\<not> int width * int height * 4 < 0" by (simp only: not_less)
  moreover have "nat (int width * int height * 4) = width * height * 4"
    by (simp add: nat_mult_distrib)
  moreover have "nat (int width * int height) = width * height"
    by (simp add: nat_mult_distrib)
  moreover have "nat (int height - 1) = height - 1" by simp
  ultimately have "createRule30Texture (int width) (int height) = Inr R"
    unfolding createRule30Texture_def Let_def R_def D_def
    by (simp only: idx typed_set_nat if_False nat_int)
  moreover have "\<forall>r < height. \<forall>c < width. red R ((r * width + c) * 4) = spec_cells width r c"
    using rows by auto
  ultimately show ?thesis using lenR by blast
qed

lemma spec_cells_bit: "spec_cells width r c = 0 \<or> spec_cells width r c = 1"
  by (cases r) (simp_all add: nextState_bit)

section \<open>Claims about the automaton\<close>

text \<open>
  Claim C1. The next state is 1 exactly for the patterns 1, 2, 3 and 4, and 0 for the
  patterns 0, 5, 6 and 7, where the pattern of \<open>(left, center, right)\<close> is
  \<open>(left << 2) | (center << 1) | right\<close>, a number from 0 to 7. For width 7 the seed row is
  \<open>[0,0,0,1,0,0,0]\<close>, and one step of either loop turns it into \<open>[0,0,1,1,1,0,0]\<close> (in the
  byte buffer: red bytes 0, 0, 255, 255, 255, 0, 0 in the second row).
\<close>

theorem C1_rule30_table_and_step:
  "nextState p = (if p \<in> {1, 2, 3, 4} then 1 else 0)
   \<and> map nextState [0, 1, 2, 3, 4, 5, 6, 7] = [0, 1, 1, 1, 1, 0, 0, 0]
   \<and> [pattern l c r. l \<leftarrow> [0, 1], c \<leftarrow> [0, 1], r \<leftarrow> [0, 1]] = [0, 1, 2, 3, 4, 5, 6, 7]
   \<and> initialState 7 = [0, 0, 0, 1, 0, 0, 0]
   \<and> nextGeneration 7 [0, 0, 0, 1, 0, 0, 0] = [0, 0, 1, 1, 1, 0, 0]
   \<and> allGenerations 7 2 = Inr [[0, 0, 0, 1, 0, 0, 0], [0, 0, 1, 1, 1, 0, 0]]
   \<and> createRule30Texture 7 2
       = Inr [0, 0, 0, 255, 0, 0, 0, 255, 0, 0, 0, 255, 255, 0, 0, 255,
              0, 0, 0, 255, 0, 0, 0, 255, 0, 0, 0, 255,
              0, 0, 0, 255, 0, 0, 0, 255, 255, 0, 0, 255, 255, 0, 0, 255,
              255, 0, 0, 255, 0, 0, 0, 255, 0, 0, 0, 255]"
proof -
  have "nextState p = (if p \<in> {1, 2, 3, 4} then 1 else 0)" by (simp add: nextState_def)
  moreover have "initialState 7 = [0, 0, 0, 1, 0, 0, 0]" by code_simp
  moreover have "nextGeneration 7 [0, 0, 0, 1, 0, 0, 0] = [0, 0, 1, 1, 1, 0, 0]" by code_simp
  moreover have "allGenerations 7 2 = Inr [[0, 0, 0, 1, 0, 0, 0], [0, 0, 1, 1, 1, 0, 0]]"
    by code_simp
  moreover have "createRule30Texture 7 2
       = Inr [0, 0, 0, 255, 0, 0, 0, 255, 0, 0, 0, 255, 255, 0, 0, 255,
              0, 0, 0, 255, 0, 0, 0, 255, 0, 0, 0, 255,
              0, 0, 0, 255, 0, 0, 0, 255, 255, 0, 0, 255, 255, 0, 0, 255,
              255, 0, 0, 255, 0, 0, 0, 255, 0, 0, 0, 255]"
    by code_simp
  ultimately show ?thesis using nextState_values pattern_bits by blast
qed

text \<open>
  Claim C9. For a positive width and a positive number of generations, the array of rows and
  the byte buffer both exist and hold the same automaton: cell \<open>(row, col)\<close> of the rows is 1
  exactly when the red byte of pixel \<open>(row, col)\<close> is not zero; both are the cell of the grid
  that the specification describes.
\<close>

theorem C9_rows_and_texture_agree:
  assumes "0 < width" and "0 < gens" and "row < gens" and "col < width"
  shows "\<exists>rows data.
      allGenerations (int width) (int gens) = Inr rows
    \<and> createRule30Texture (int width) (int gens) = Inr data
    \<and> length rows = gens \<and> length (rows ! row) = width
    \<and> length data = width * gens * 4
    \<and> (rows ! row ! col = 0 \<or> rows ! row ! col = 1)
    \<and> (rows ! row ! col = 1 \<longleftrightarrow> data ! ((row * width + col) * 4) \<noteq> 0)
    \<and> rows ! row ! col = spec_cells width row col"
proof -
  let ?rows = "map (\<lambda>r. map (spec_cells width r) [0..<width]) [0..<gens]"
  from createRule30Texture_spec [OF assms(1,2)] obtain data
    where d: "createRule30Texture (int width) (int gens) = Inr data"
      and len: "length data = width * gens * 4"
      and cells: "\<And>r c. r < gens \<Longrightarrow> c < width \<Longrightarrow>
                    red data ((r * width + c) * 4) = spec_cells width r c"
    by blast
  have rc: "?rows ! row ! col = spec_cells width row col" using assms(3,4) by simp
  have a: "row * width + col < (row + 1) * width" using assms(4) by simp
  have "row + 1 \<le> gens" using assms(3) by simp
  then have b: "(row + 1) * width \<le> gens * width" by (rule mult_le_mono1)
  from a b have "row * width + col < gens * width" by (rule less_le_trans)
  then have "(row * width + col) * 4 < length data" by (simp add: len mult.commute)
  from red_nonzero [OF this] cells [OF assms(3,4)]
  have "spec_cells width row col = 1 \<longleftrightarrow> data ! ((row * width + col) * 4) \<noteq> 0" by simp
  with rc have "?rows ! row ! col = 1 \<longleftrightarrow> data ! ((row * width + col) * 4) \<noteq> 0" by simp
  moreover have "?rows ! row ! col = 0 \<or> ?rows ! row ! col = 1"
    unfolding rc by (rule spec_cells_bit)
  moreover have "length ?rows = gens" "length (?rows ! row) = width" using assms(3) by simp_all
  ultimately show ?thesis
    using allGenerations_spec [OF assms(1,2)] d len rc by blast
qed

theorem C9_rows_and_texture_agree_witness:
  "(0::nat) < 3 \<and> (0::nat) < 2 \<and> (1::nat) < 2 \<and> (1::nat) < 3
   \<and> allGenerations 3 2 = Inr [[0, 1, 0], [1, 1, 1]]
   \<and> createRule30Texture 3 2
       = Inr [0, 0, 0, 255, 255, 0, 0, 255, 0, 0, 0, 255,
              255, 0, 0, 255, 255, 0, 0, 255, 255, 0, 0, 255]
   \<and> [[0, 1, 0], [1, 1, 1]] ! 1 ! 1 = (1::int)
   \<and> [0, 0, 0, 255, 255, 0, 0, 255, 0, 0, 0, 255,
        255, 0, 0, 255, 255, 0, 0, 255, 255, 0, 0, 255] ! ((1 * 3 + 1) * 4) \<noteq> (0::u8)"
proof -
  have r: "allGenerations 3 2 = Inr [[0, 1, 0], [1, 1, 1]]" by code_simp
  have t: "createRule30Texture 3 2
       = Inr [0, 0, 0, 255, 255, 0, 0, 255, 0, 0, 0, 255,
              255, 0, 0, 255, 255, 0, 0, 255, 255, 0, 0, 255]" by code_simp
  from C9_rows_and_texture_agree [of 3 2 1 1] r t show ?thesis by simp
qed

text \<open>
  Claim C6. In both loops a neighbour outside \<open>[0, width)\<close> counts as dead: the cell at
  column \<open>c\<close> of a later row is the rule applied to the three cells above it, with 0 for the
  left neighbour of column 0 and for the right neighbour of column \<open>width - 1\<close>. For
  \<open>width = 1\<close> every later row is the rule applied to \<open>(0, cell above, 0)\<close>; the seed is the
  single cell 1.
\<close>

theorem C6_dead_boundary:
  assumes "0 < width" and "Suc r < gens" and "c < width"
  shows "\<exists>rows data.
      allGenerations (int width) (int gens) = Inr rows
    \<and> createRule30Texture (int width) (int gens) = Inr data
    \<and> rows ! Suc r ! c
        = nextState (pattern (if c = 0 then 0 else rows ! r ! (c - 1))
                             (rows ! r ! c)
                             (if c = width - 1 then 0 else rows ! r ! (c + 1)))
    \<and> red data ((Suc r * width + c) * 4)
        = nextState (pattern (if c = 0 then 0 else red data ((r * width + (c - 1)) * 4))
                             (red data ((r * width + c) * 4))
                             (if c = width - 1 then 0 else red data ((r * width + (c + 1)) * 4)))
    \<and> (width = 1 \<longrightarrow>
          rows ! 0 = [1]
        \<and> rows ! Suc r = [nextState (pattern 0 (rows ! r ! 0) 0)]
        \<and> red data (Suc r * 4) = nextState (pattern 0 (red data (r * 4)) 0))"
proof -
  let ?rows = "map (\<lambda>r. map (spec_cells width r) [0..<width]) [0..<gens]"
  from assms(2) have g: "0 < gens" and r: "r < gens" by simp_all
  from createRule30Texture_spec [OF assms(1) g] obtain data
    where d: "createRule30Texture (int width) (int gens) = Inr data"
      and cells: "\<And>r c. r < gens \<Longrightarrow> c < width \<Longrightarrow>
                    red data ((r * width + c) * 4) = spec_cells width r c"
    by blast
  have e: "c = width - 1 \<longleftrightarrow> c + 1 = width" using assms(3) by auto
  have rule: "spec_cells width (Suc r) c
        = nextState (pattern (if c = 0 then 0 else spec_cells width r (c - 1))
                             (spec_cells width r c)
                             (if c = width - 1 then 0 else spec_cells width r (c + 1)))"
    by (simp only: spec_cells.simps(2) e)
  have up: "?rows ! r ! c = spec_cells width r c" using r assms(3) by simp
  have left: "?rows ! r ! (c - 1) = spec_cells width r (c - 1)" using r assms(3) by simp
  have right: "?rows ! r ! (c + 1) = spec_cells width r (c + 1)" if "c \<noteq> width - 1"
    using r assms(3) that by simp
  have here: "?rows ! Suc r ! c = spec_cells width (Suc r) c" using assms(2,3) by simp
  have grid: "?rows ! Suc r ! c
        = nextState (pattern (if c = 0 then 0 else ?rows ! r ! (c - 1))
                             (?rows ! r ! c)
                             (if c = width - 1 then 0 else ?rows ! r ! (c + 1)))"
    unfolding here rule up left using right by (cases "c = width - 1") simp_all
  have dup: "red data ((r * width + c) * 4) = spec_cells width r c"
    using r assms(3) by (rule cells)
  have dleft: "red data ((r * width + (c - 1)) * 4) = spec_cells width r (c - 1)"
    using r assms(3) by (intro cells) simp_all
  have dright: "red data ((r * width + (c + 1)) * 4) = spec_cells width r (c + 1)"
    if "c \<noteq> width - 1"
    using r assms(3) that by (intro cells) simp_all
  have dhere: "red data ((Suc r * width + c) * 4) = spec_cells width (Suc r) c"
    using assms(2,3) by (rule cells)
  have buffer: "red data ((Suc r * width + c) * 4)
        = nextState (pattern (if c = 0 then 0 else red data ((r * width + (c - 1)) * 4))
                             (red data ((r * width + c) * 4))
                             (if c = width - 1 then 0 else red data ((r * width + (c + 1)) * 4)))"
    unfolding dhere rule dup dleft using dright by (cases "c = width - 1") simp_all
  have one: "?rows ! 0 = [1] \<and> ?rows ! Suc r = [nextState (pattern 0 (?rows ! r ! 0) 0)]
        \<and> red data (Suc r * 4) = nextState (pattern 0 (red data (r * 4)) 0)"
    if w: "width = 1"
  proof -
    from w assms(3) have c0: "c = 0" by simp
    have "?rows ! 0 = [1]" using g w by simp
    moreover have "?rows ! Suc r = [nextState (pattern 0 (?rows ! r ! 0) 0)]"
      using assms(2) r w by simp
    moreover have "red data (Suc r * 4) = nextState (pattern 0 (red data (r * 4)) 0)"
      using buffer unfolding w c0 by simp
    ultimately show ?thesis by blast
  qed
  from allGenerations_spec [OF assms(1) g] d grid buffer one show ?thesis by blast
qed

theorem C6_dead_boundary_witness:
  "(0::nat) < 1 \<and> Suc 0 < 2 \<and> (0::nat) < 1
   \<and> allGenerations 1 2 = Inr [[1], [1]]
   \<and> createRule30Texture 1 2 = Inr [255, 0, 0, 255, 255, 0, 0, 255]
   \<and> [[1], [1]] ! Suc 0 = [nextState (pattern 0 ([[1], [1]] ! 0 ! 0) 0)]
   \<and> red [255, 0, 0, 255, 255, 0, 0, 255] (Suc 0 * 4)
       = nextState (pattern 0 (red [255, 0, 0, 255, 255, 0, 0, 255] (0 * 4)) 0)"
proof -
  have r: "allGenerations 1 2 = Inr [[1], [1]]" by code_simp
  have t: "createRule30Texture 1 2 = Inr [255, 0, 0, 255, 255, 0, 0, 255]" by code_simp
  from C6_dead_boundary [of 1 0 2 0] r t show ?thesis by simp
qed

section \<open>Claim about invalid parameters\<close>

lemma Cube_no_depth:
  "depth \<le> 0 \<Longrightarrow>
   Cube position sz depth =
     Element \<lparr>cube_position = position, cube_size = sz, cube_depth = depth,
              cube_colorIndex = 4, cube_color = Some ''#ff55ff''\<rparr> []"
  by (subst Cube.simps) (simp add: Let_def Menger_DEPTH_COLORS_def lookup_def)

lemma createRule30Texture_empty:
  assumes "width = 0 \<or> height = 0"
  shows "createRule30Texture width height = Inr []"
proof -
  from assms have z: "width * height = 0" by auto
  have inner: "nat width = 0 \<or> nat (height - 1) = 0" using assms by auto
  have "fold (\<lambda>y data. fold (\<lambda>x data. applyRule (nat width) y x data) [0..<nat width] data)
          [0..<nat (height - 1)] [] = []"
  proof (cases "nat width = 0")
    case True
    have "fold (\<lambda>y data. fold (\<lambda>x data. applyRule (nat width) y x data) [0..<nat width] data)
            [0..<nat (height - 1)] = id"
      by (rule fold_id) (simp add: True fun_eq_iff)
    then show ?thesis by simp
  next
    case False
    with inner show ?thesis by simp
  qed
  then show ?thesis
    by (simp add: createRule30Texture_def z clearCells_def typed_set_def)
qed

text \<open>
  Claim C7, as amended. No generator validates its parameters, and none produces an
  \<open>InvalidParameter\<close> error. A solid with \<open>depth \<le> 0\<close> is returned as a single childless
  node, of the size it was given, whatever that size is. The rows of the automaton are
  returned for \<open>width = 0\<close> (with at most one generation: the single row \<open>[1]\<close>) and for no
  generations at all (for a width up to 1024: the seed row alone); a negative \<open>width\<close> makes
  \<open>Array\<close> raise a \<open>RangeError\<close> before any row exists. The byte buffer is returned empty when
  \<open>width\<close> or \<open>height\<close> is 0; a negative \<open>width * height\<close> makes \<open>Uint8Array\<close> raise a
  \<open>RangeError\<close> before any byte exists.
\<close>

theorem C7_no_parameter_validation:
  assumes "depth \<le> 0"
  shows "Cube position sz depth =
           Element \<lparr>cube_position = position, cube_size = sz, cube_depth = depth,
                    cube_colorIndex = 4, cube_color = Some ''#ff55ff''\<rparr> []
    \<and> children (Tetrahedron position sz depth color) = []
    \<and> tetra_size (props (Tetrahedron position sz depth color)) = sz
    \<and> children (Torus position radius tubeRadius depth) = []
    \<and> torus_radius (props (Torus position radius tubeRadius depth)) = radius
    \<and> torus_tubeRadius (props (Torus position radius tubeRadius depth)) = tubeRadius
    \<and> (negWidth < 0 \<longrightarrow> allGenerations negWidth gens = Inl RangeError)
    \<and> (fewGens \<le> 1 \<longrightarrow> allGenerations 0 fewGens = Inr [[1]])
    \<and> (0 \<le> width \<and> width \<le> 1024 \<longrightarrow>
          allGenerations width 0 = Inr [initialState (nat width)])
    \<and> (texWidth * texHeight < 0 \<longrightarrow> createRule30Texture texWidth texHeight = Inl RangeError)
    \<and> (noWidth = 0 \<or> noHeight = 0 \<longrightarrow> createRule30Texture noWidth noHeight = Inr [])"
proof -
  from assms have leaf: "\<not> 0 < depth" by simp
  have "negWidth < 0 \<longrightarrow> allGenerations negWidth gens = Inl RangeError"
    "0 \<le> width \<and> width \<le> 1024 \<longrightarrow> allGenerations width 0 = Inr [initialState (nat width)]"
    by (simp_all add: allGenerations_def)
  moreover have "fewGens \<le> 1 \<longrightarrow> allGenerations 0 fewGens = Inr [[1]]"
    by (simp add: allGenerations_def initialState_def array_set_def)
  moreover have "texWidth * texHeight < 0 \<longrightarrow>
      createRule30Texture texWidth texHeight = Inl RangeError"
    by (simp add: createRule30Texture_def Let_def mult.commute)
  moreover have "noWidth = 0 \<or> noHeight = 0 \<longrightarrow> createRule30Texture noWidth noHeight = Inr []"
    using createRule30Texture_empty by blast
  ultimately show ?thesis
    using Cube_no_depth [OF assms] Tetrahedron_leaf [OF leaf] Torus_leaf [OF leaf]
    by (simp add: Tetrahedron_props Torus_props)
qed

theorem C7_no_parameter_validation_witness:
  "(- 1 :: int) \<le> 0
   \<and> Cube (0, 0, 0) 3 (- 1) =
        Element \<lparr>cube_position = (0, 0, 0), cube_size = 3, cube_depth = - 1,
                 cube_colorIndex = 4, cube_color = Some ''#ff55ff''\<rparr> []
   \<and> children (Torus (0, 0, 0) 4 2 (- 1)) = []
   \<and> (- 1 :: int) < 0 \<and> allGenerations (- 1) 120 = Inl RangeError
   \<and> (0 :: int) \<le> 1 \<and> allGenerations 0 0 = Inr [[1]]
   \<and> (0 :: int) \<le> 7 \<and> (7 :: int) \<le> 1024
   \<and> allGenerations 7 0 = Inr [[0, 0, 0, 1, 0, 0, 0]]
   \<and> (3 :: int) * (- 1) < 0 \<and> createRule30Texture 3 (- 1) = Inl RangeError
   \<and> createRule30Texture 0 5 = Inr []"
proof -
  have s: "initialState (nat 7) = [0, 0, 0, 1, 0, 0, 0]" by code_simp
  from C7_no_parameter_validation [where depth = "- 1" and position = "(0, 0, 0)" and sz = 3
      and color = None and radius = 4 and tubeRadius = 2 and negWidth = "- 1" and gens = 120
      and fewGens = 0 and width = 7 and texWidth = 3 and texHeight = "- 1"
      and noWidth = 0 and noHeight = 5] s
  show ?thesis by simp
qed

text \<open>
  The claim as stated fails: a negative depth, a zero size, a zero width and a zero number of
  generations all give a result, not an error.
\<close>

theorem C7_no_validation_counterexample:
  "Cube (0, 0, 0) 3 (- 1) =
     Element \<lparr>cube_position = (0, 0, 0), cube_size = 3, cube_depth = - 1,
              cube_colorIndex = 4, cube_color = Some ''#ff55ff''\<rparr> []
   \<and> Cube (0, 0, 0) 0 0 =
     Element \<lparr>cube_position = (0, 0, 0), cube_size = 0, cube_depth = 0,
              cube_colorIndex = 4, cube_color = Some ''#ff55ff''\<rparr> []
   \<and> allGenerations 0 3 = Inr [[1], [], []]
   \<and> createRule30Texture 3 0 = Inr []"
proof -
  have "allGenerations 0 3 = Inr [[1], [], []]" by code_simp
  moreover have "createRule30Texture 3 0 = Inr []" by code_simp
  ultimately show ?thesis by (simp add: Cube_no_depth)
qed

end
